theory Spec2Isabelle
  imports Complex_Main "HOL-Library.Word" "HOL-Library.Signed_Division" "HOL-Library.Multiset"
begin

unbundle bit_operations_syntax

section \<open>Tetrominoes.ts: piece geometry\<close>

text \<open>
  The enum \<open>PieceType\<close>. The constructors carry the prefix \<open>Piece_\<close> because the bare
  letters \<open>I\<close> and \<open>O\<close> are taken in HOL.
\<close>

datatype PieceType = Piece_I | Piece_O | Piece_T | Piece_S | Piece_Z | Piece_J | Piece_L

text \<open>
  A \<open>Cell\<close> is the pair \<open>(row, col)\<close>; the row grows downward. JavaScript numbers that
  hold rows, columns, rotation states, levels, line counts and scores are integers and are
  modelled as \<open>int\<close>.
\<close>

type_synonym Cell = "int \<times> int"

text \<open>\<open>PIECE_DATA[type].states\<close>: four rotation states of four cells each.\<close>

fun states :: "PieceType \<Rightarrow> Cell list list" where
  "states Piece_I =
     [[(1, 0), (1, 1), (1, 2), (1, 3)],
      [(0, 2), (1, 2), (2, 2), (3, 2)],
      [(2, 0), (2, 1), (2, 2), (2, 3)],
      [(0, 1), (1, 1), (2, 1), (3, 1)]]"
| "states Piece_O =
     [[(0, 0), (0, 1), (1, 0), (1, 1)],
      [(0, 0), (0, 1), (1, 0), (1, 1)],
      [(0, 0), (0, 1), (1, 0), (1, 1)],
      [(0, 0), (0, 1), (1, 0), (1, 1)]]"
| "states Piece_T =
     [[(0, 1), (1, 0), (1, 1), (1, 2)],
      [(0, 1), (1, 1), (1, 2), (2, 1)],
      [(1, 0), (1, 1), (1, 2), (2, 1)],
      [(0, 1), (1, 0), (1, 1), (2, 1)]]"
| "states Piece_S =
     [[(0, 1), (0, 2), (1, 0), (1, 1)],
      [(0, 1), (1, 1), (1, 2), (2, 2)],
      [(1, 1), (1, 2), (2, 0), (2, 1)],
      [(0, 0), (1, 0), (1, 1), (2, 1)]]"
| "states Piece_Z =
     [[(0, 0), (0, 1), (1, 1), (1, 2)],
      [(0, 2), (1, 1), (1, 2), (2, 1)],
      [(1, 0), (1, 1), (2, 1), (2, 2)],
      [(0, 1), (1, 0), (1, 1), (2, 0)]]"
| "states Piece_J =
     [[(0, 0), (1, 0), (1, 1), (1, 2)],
      [(0, 1), (0, 2), (1, 1), (2, 1)],
      [(1, 0), (1, 1), (1, 2), (2, 2)],
      [(0, 1), (1, 1), (2, 0), (2, 1)]]"
| "states Piece_L =
     [[(0, 2), (1, 0), (1, 1), (1, 2)],
      [(0, 1), (1, 1), (2, 1), (2, 2)],
      [(1, 0), (1, 1), (1, 2), (2, 0)],
      [(0, 0), (0, 1), (1, 1), (2, 1)]]"

definition ALL_PIECE_TYPES :: "PieceType list" where
  "ALL_PIECE_TYPES = [Piece_I, Piece_O, Piece_T, Piece_S, Piece_Z, Piece_J, Piece_L]"

text \<open>\<open>getCells\<close>: \<open>TETROMINOES[type].states[rotation & 3]\<close>.\<close>

definition getCells :: "PieceType \<Rightarrow> int \<Rightarrow> Cell list" where
  "getCells ptype rotation = states ptype ! nat (rotation AND 3)"

definition getAbsoluteCells :: "PieceType \<Rightarrow> int \<Rightarrow> int \<Rightarrow> int \<Rightarrow> Cell list" where
  "getAbsoluteCells ptype rotation originRow originCol =
     map (\<lambda>(r, c). (r + originRow, c + originCol)) (getCells ptype rotation)"

section \<open>Board.ts: the playing field\<close>

definition BOARD_COLS :: nat where "BOARD_COLS = 10"
definition BOARD_VISIBLE_ROWS :: nat where "BOARD_VISIBLE_ROWS = 20"
definition BOARD_BUFFER_ROWS :: nat where "BOARD_BUFFER_ROWS = 20"
definition BOARD_ROWS :: nat where "BOARD_ROWS = BOARD_VISIBLE_ROWS + BOARD_BUFFER_ROWS"

lemma BOARD_ROWS_eq: "BOARD_ROWS = 40"
  by (simp add: BOARD_ROWS_def BOARD_VISIBLE_ROWS_def BOARD_BUFFER_ROWS_def)

lemmas board_consts = BOARD_ROWS_eq BOARD_COLS_def BOARD_BUFFER_ROWS_def BOARD_VISIBLE_ROWS_def

text \<open>
  \<open>CellValue = PieceType | null\<close>. The class \<open>Board\<close> has the single field \<open>grid\<close>, an
  array of row arrays; the model of a board is that grid. Every row array is created on its
  own (\<open>createEmptyGrid\<close>, the empty rows of \<open>clearLines\<close>), so no two rows alias and a list
  of lists is exact.
\<close>

type_synonym CellValue = "PieceType option"
type_synonym Board = "CellValue list list"

definition createEmptyGrid :: Board where
  "createEmptyGrid = replicate BOARD_ROWS (replicate BOARD_COLS None)"

text \<open>
  The dimensions the class maintains: 40 rows of 10 columns. Every read of the grid in the
  source is guarded by a check against \<open>BOARD_ROWS\<close> and \<open>BOARD_COLS\<close>, so on such a
  grid no read is out of range.
\<close>

definition wf_grid :: "Board \<Rightarrow> bool" where
  "wf_grid grid \<longleftrightarrow> length grid = BOARD_ROWS \<and> list_all (\<lambda>row. length row = BOARD_COLS) grid"

text \<open>\<open>getCell\<close> answers the string \<open>'wall'\<close> outside the grid.\<close>

datatype CellOrWall = Wall | Val CellValue

definition getCell :: "Board \<Rightarrow> int \<Rightarrow> int \<Rightarrow> CellOrWall" where
  "getCell grid row col =
     (if row < 0 \<or> row \<ge> int BOARD_ROWS \<or> col < 0 \<or> col \<ge> int BOARD_COLS then Wall
      else Val (grid ! nat row ! nat col))"

definition isValidPosition :: "Board \<Rightarrow> PieceType \<Rightarrow> int \<Rightarrow> int \<Rightarrow> int \<Rightarrow> bool" where
  "isValidPosition grid ptype rotation originRow originCol =
     list_all (\<lambda>(r, c).
         if r < 0 \<or> r \<ge> int BOARD_ROWS \<or> c < 0 \<or> c \<ge> int BOARD_COLS then False
         else grid ! nat r ! nat c = None)
       (getAbsoluteCells ptype rotation originRow originCol)"

text \<open>\<open>lockPiece\<close>: the \<open>for\<close> loop over the four cells, each write guarded.\<close>

definition lockCell :: "PieceType \<Rightarrow> Cell \<Rightarrow> Board \<Rightarrow> Board" where
  "lockCell ptype = (\<lambda>(r, c) grid.
     if r \<ge> 0 \<and> r < int BOARD_ROWS \<and> c \<ge> 0 \<and> c < int BOARD_COLS
     then grid[nat r := (grid ! nat r)[nat c := Some ptype]]
     else grid)"

definition lockPiece :: "Board \<Rightarrow> PieceType \<Rightarrow> int \<Rightarrow> int \<Rightarrow> int \<Rightarrow> Board" where
  "lockPiece grid ptype rotation originRow originCol =
     fold (lockCell ptype) (getAbsoluteCells ptype rotation originRow originCol) grid"

text \<open>
  \<open>clearLines\<close> returns \<open>{count, rows}\<close> and replaces the grid. The scan runs from row 39
  down to row 0, so the indices are pushed in descending order.
\<close>

definition rowComplete :: "CellValue list \<Rightarrow> bool" where
  "rowComplete row = list_all (\<lambda>cell. cell \<noteq> None) row"

definition clearLines :: "Board \<Rightarrow> (nat \<times> nat list) \<times> Board" where
  "clearLines grid =
     (let clearedRows = filter (\<lambda>row. rowComplete (grid ! row)) (rev [0..<BOARD_ROWS])
      in if length clearedRows = 0 then ((0, []), grid)
         else
           let newGrid = map fst (filter (\<lambda>(_, idx). idx \<notin> set clearedRows)
                                    (zip grid [0..<length grid]));
               emptyRows = replicate (length clearedRows) (replicate BOARD_COLS None)
           in ((length clearedRows, clearedRows), emptyRows @ newGrid))"

text \<open>\<open>rotation & 3\<close> keeps the two low bits: it is the rotation modulo 4, also when negative.\<close>

lemma and3_mod4: "(r::int) AND 3 = r mod 4"
  using take_bit_eq_mask[of 2 r] by (simp add: take_bit_eq_mod mask_eq_exp_minus_1)

lemma and3_cases: "(r::int) AND 3 = 0 \<or> r AND 3 = 1 \<or> r AND 3 = 2 \<or> r AND 3 = 3"
  unfolding and3_mod4 by presburger

lemma getCells_cases: "getCells ptype rotation \<in> set (states ptype)"
  using and3_cases[of rotation] unfolding getCells_def
  by (cases ptype) auto

lemma getCells_offsets:
  "(r, c) \<in> set (getCells ptype rotation) \<Longrightarrow> 0 \<le> r \<and> r \<le> 3 \<and> 0 \<le> c \<and> c \<le> 3"
  using getCells_cases[of ptype rotation] by (cases ptype) auto

lemma getCells_nonempty: "getCells ptype rotation \<noteq> []"
  using getCells_cases[of ptype rotation] by (cases ptype) auto

lemma isValidPosition_iff:
  "isValidPosition grid ptype rotation originRow originCol \<longleftrightarrow>
   (\<forall>(r, c) \<in> set (getAbsoluteCells ptype rotation originRow originCol).
      0 \<le> r \<and> r < 40 \<and> 0 \<le> c \<and> c < 10 \<and> grid ! nat r ! nat c = None)"
  unfolding isValidPosition_def list_all_iff by (auto simp: board_consts split: if_splits)

lemma isValidPosition_row_bound:
  assumes "isValidPosition grid ptype rotation originRow originCol"
  shows "originRow < 40"
proof -
  obtain r c where rc: "(r, c) \<in> set (getCells ptype rotation)"
    using getCells_nonempty[of ptype rotation] by (cases "getCells ptype rotation") auto
  then have "(r + originRow, c + originCol)
      \<in> set (getAbsoluteCells ptype rotation originRow originCol)"
    unfolding getAbsoluteCells_def by force
  with assms have "r + originRow < 40" unfolding isValidPosition_iff by auto
  moreover have "0 \<le> r" using getCells_offsets[OF rc] by simp
  ultimately show ?thesis by simp
qed

text \<open>
  \<open>getGhostRow\<close>: the \<open>while\<close> loop that descends one row at a time. It stops because no
  position with origin row 40 or more is valid.
\<close>

function getGhostRowFrom :: "Board \<Rightarrow> PieceType \<Rightarrow> int \<Rightarrow> int \<Rightarrow> int \<Rightarrow> int" where
  "getGhostRowFrom grid ptype rotation ghostRow originCol =
     (if isValidPosition grid ptype rotation (ghostRow + 1) originCol
      then getGhostRowFrom grid ptype rotation (ghostRow + 1) originCol
      else ghostRow)"
  by pat_completeness auto
termination
  by (relation "measure (\<lambda>(grid, ptype, rotation, ghostRow, originCol). nat (40 - ghostRow))")
     (auto dest: isValidPosition_row_bound)

definition getGhostRow :: "Board \<Rightarrow> PieceType \<Rightarrow> int \<Rightarrow> int \<Rightarrow> int \<Rightarrow> int" where
  "getGhostRow grid ptype rotation originRow originCol =
     getGhostRowFrom grid ptype rotation originRow originCol"

text \<open>An example board: empty except for a complete bottom row.\<close>

definition bottomRowFull :: Board where
  "bottomRowFull = replicate 39 (replicate 10 None) @ [replicate 10 (Some Piece_I)]"

section \<open>Properties of the board\<close>

lemma wf_grid_createEmptyGrid: "wf_grid createEmptyGrid"
  by (simp add: wf_grid_def createEmptyGrid_def list_all_iff)

lemma wf_gridD:
  "wf_grid grid \<Longrightarrow> length grid = 40"
  "wf_grid grid \<Longrightarrow> r < 40 \<Longrightarrow> length (grid ! r) = 10"
  by (auto simp: wf_grid_def list_all_length board_consts)

lemma lockCell_wf: "wf_grid grid \<Longrightarrow> wf_grid (lockCell ptype cell grid)"
  by (cases cell) (auto simp: lockCell_def wf_grid_def list_all_length nth_list_update)

lemma lockCell_nth:
  assumes "wf_grid grid" "r < 40" "c < 10"
  shows "lockCell ptype cell grid ! r ! c = (if cell = (int r, int c) then Some ptype else grid ! r ! c)"
proof (cases cell)
  case (Pair r' c')
  show ?thesis
    using assms wf_gridD[OF assms(1)] unfolding Pair lockCell_def
    by (auto simp: nth_list_update nat_eq_iff board_consts)
qed

lemma fold_lockCell:
  assumes "wf_grid grid"
  shows "wf_grid (fold (lockCell ptype) cells grid) \<and>
         (\<forall>r<40. \<forall>c<10. fold (lockCell ptype) cells grid ! r ! c =
            (if (int r, int c) \<in> set cells then Some ptype else grid ! r ! c))"
  using assms
proof (induction cells arbitrary: grid)
  case Nil
  then show ?case by simp
next
  case (Cons cell cells)
  have wf1: "wf_grid (lockCell ptype cell grid)" using Cons.prems by (rule lockCell_wf)
  from Cons.IH[OF wf1] show ?case
    using lockCell_nth[OF Cons.prems] by auto
qed

text \<open>
  Claim C10. \<open>lockPiece\<close> is a total function with no error result. For every piece
  type, rotation and origin, also one that puts some or all of the four absolute cells
  outside the grid, it stores the piece type in exactly those absolute cells that lie in
  the 40 by 10 grid and leaves every other cell as it was; the grid keeps its dimensions.
\<close>

theorem lockPiece_clips:
  assumes "wf_grid grid"
  shows "wf_grid (lockPiece grid ptype rotation originRow originCol) \<and>
         (\<forall>r<40. \<forall>c<10.
            lockPiece grid ptype rotation originRow originCol ! r ! c =
              (if (int r, int c) \<in> set (getAbsoluteCells ptype rotation originRow originCol)
               then Some ptype else grid ! r ! c))"
  unfolding lockPiece_def using fold_lockCell[OF assms] by blast

lemma clearedRows_length:
  "length (filter (\<lambda>row. rowComplete (grid ! row)) (rev [0..<length grid]))
     = length (filter rowComplete grid)"
proof -
  have "filter rowComplete grid = filter rowComplete (map ((!) grid) [0..<length grid])"
    using map_nth[of grid] by simp
  also have "length \<dots> = length (filter (\<lambda>row. rowComplete (grid ! row)) [0..<length grid])"
    by (simp add: filter_map comp_def)
  also have "\<dots> = length (filter (\<lambda>row. rowComplete (grid ! row)) (rev [0..<length grid]))"
    by (metis length_rev rev_filter)
  finally show ?thesis by simp
qed

lemma newGrid_nths:
  "map fst (filter (\<lambda>(_, idx). idx \<notin> set rows) (zip grid [0..<length grid]))
     = nths grid (- set rows)"
  unfolding nths_def by (simp add: case_prod_unfold)

lemma nths_not_complete:
  "nths grid (- set (filter (\<lambda>row. rowComplete (grid ! row)) (rev [0..<length grid])))
       = filter (\<lambda>row. \<not> rowComplete row) grid"
proof -
  have "filter (\<lambda>row. \<not> rowComplete row) grid = nths grid {i. i < length grid \<and> \<not> rowComplete (grid ! i)}"
    by (rule filter_eq_nths)
  also have "\<dots> = nths grid (- set (filter (\<lambda>row. rowComplete (grid ! row)) (rev [0..<length grid])))"
    unfolding nths_def
    by (intro arg_cong[where f="map fst"] filter_cong) (auto simp: set_zip)
  finally show ?thesis by simp
qed

lemma rowComplete_iff:
  "length row = 10 \<Longrightarrow> rowComplete row \<longleftrightarrow> (\<forall>c<10. row ! c \<noteq> None)"
  by (simp add: rowComplete_def list_all_length)

lemma clearLines_result:
  assumes "wf_grid grid"
  shows "case clearLines grid of ((cnt, rows), newGrid) \<Rightarrow>
           cnt = length rows \<and> distinct rows
         \<and> set rows = {i. i < 40 \<and> (\<forall>c<10. grid ! i ! c \<noteq> None)}
         \<and> newGrid = replicate cnt (replicate 10 None) @ nths grid (- set rows)
         \<and> wf_grid newGrid"
proof -
  define rows where "rows = filter (\<lambda>row. rowComplete (grid ! row)) (rev [0..<length grid])"
  have len: "length grid = 40" and rowlen: "\<And>r. r < 40 \<Longrightarrow> length (grid ! r) = 10"
    using wf_gridD[OF assms] by auto
  have BR: "BOARD_ROWS = length grid" using len BOARD_ROWS_eq by simp
  have "set rows = {i. i < length grid \<and> rowComplete (grid ! i)}"
    unfolding rows_def by auto
  then have set_rows: "set rows = {i. i < 40 \<and> (\<forall>c<10. grid ! i ! c \<noteq> None)}"
    using rowlen len by (auto simp: rowComplete_iff)
  have dist: "distinct rows" unfolding rows_def by (intro distinct_filter) simp
  have keep: "nths grid (- set rows) = filter (\<lambda>row. \<not> rowComplete row) grid"
    unfolding rows_def by (rule nths_not_complete)
  have "length rows = length (filter rowComplete grid)"
    unfolding rows_def by (rule clearedRows_length)
  then have "length rows + length (filter (\<lambda>row. \<not> rowComplete row) grid) = 40"
    using sum_length_filter_compl[of rowComplete grid] len by simp
  then have wf_new: "wf_grid (replicate (length rows) (replicate 10 None) @ nths grid (- set rows))"
    using assms unfolding keep wf_grid_def by (auto simp: list_all_iff board_consts)
  have unfold: "clearLines grid =
      (if length rows = 0 then ((0, []), grid)
       else ((length rows, rows), replicate (length rows) (replicate 10 None) @ nths grid (- set rows)))"
    unfolding clearLines_def Let_def newGrid_nths rows_def BR BOARD_COLS_def by (rule refl)
  show ?thesis
  proof (cases "length rows = 0")
    case True
    then have empty: "rows = []" by simp
    have "nths grid (- set rows) = grid" unfolding empty by (simp add: nths_all)
    then show ?thesis
      using True set_rows assms unfolding unfold empty by simp
  next
    case False
    then show ?thesis
      using set_rows dist wf_new unfolding unfold by simp
  qed
qed

text \<open>
  Claim C3. On a 40 by 10 grid \<open>clearLines\<close> reports the number of cleared rows and
  their indices in the grid before compaction; these are exactly the rows all of whose 10
  columns are non-empty. The new grid is that many empty rows on top, followed by the rows
  that were not cleared, in their old order (\<open>nths\<close> keeps the order); it is again 40
  by 10.
\<close>

theorem clearLines_spec:
  assumes "wf_grid grid"
  shows "case clearLines grid of ((cnt, rows), newGrid) \<Rightarrow>
           cnt = length rows \<and> distinct rows
         \<and> set rows = {i. i < 40 \<and> (\<forall>c<10. grid ! i ! c \<noteq> None)}
         \<and> newGrid = replicate cnt (replicate 10 None) @ nths grid (- set rows)
         \<and> wf_grid newGrid"
  using assms by (rule clearLines_result)

lemma wf_bottomRowFull: "wf_grid bottomRowFull"
  by (simp add: wf_grid_def bottomRowFull_def board_consts list_all_iff)

lemma clearLines_bottomRowFull: "clearLines bottomRowFull = ((1, [39]), createEmptyGrid)"
  by code_simp

theorem lockPiece_clips_witness:
  "wf_grid createEmptyGrid
   \<and> getAbsoluteCells Piece_T 0 39 8 = [(39, 9), (40, 8), (40, 9), (40, 10)]
   \<and> lockPiece createEmptyGrid Piece_T 0 39 8 ! 39 ! 9 = Some Piece_T
   \<and> lockPiece createEmptyGrid Piece_T 0 39 8 ! 39 ! 8 = None"
proof -
  have cells: "getAbsoluteCells Piece_T 0 39 8 = [(39, 9), (40, 8), (40, 9), (40, 10)]"
    by (simp add: getAbsoluteCells_def getCells_def)
  have empty: "createEmptyGrid ! 39 ! 8 = None"
    by (simp add: createEmptyGrid_def board_consts)
  from lockPiece_clips[OF wf_grid_createEmptyGrid, of Piece_T 0 39 8]
  have all: "\<forall>r<40. \<forall>c<10. lockPiece createEmptyGrid Piece_T 0 39 8 ! r ! c =
      (if (int r, int c) \<in> set (getAbsoluteCells Piece_T 0 39 8)
       then Some Piece_T else createEmptyGrid ! r ! c)"
    by blast
  have "lockPiece createEmptyGrid Piece_T 0 39 8 ! 39 ! 9 = Some Piece_T"
    using all[rule_format, of 39 9] by (simp add: cells)
  moreover have "lockPiece createEmptyGrid Piece_T 0 39 8 ! 39 ! 8 = None"
    using all[rule_format, of 39 8] by (simp add: cells empty)
  ultimately show ?thesis using wf_grid_createEmptyGrid cells by blast
qed

theorem clearLines_spec_witness:
  "wf_grid bottomRowFull \<and>
   (case clearLines bottomRowFull of ((cnt, rows), newGrid) \<Rightarrow>
      cnt = 1 \<and> rows = [39] \<and> newGrid = createEmptyGrid \<and> 
      set rows = {i. i < 40 \<and> (\<forall>c<10. bottomRowFull ! i ! c \<noteq> None)})"
  using clearLines_spec[OF wf_bottomRowFull] wf_bottomRowFull clearLines_bottomRowFull
  by simp

section \<open>Scoring.ts\<close>

datatype ClearType =
  NONE | SINGLE | DOUBLE | TRIPLE | TETRIS
  | TSPIN_MINI | TSPIN_SINGLE | TSPIN_DOUBLE | TSPIN_TRIPLE | TSPIN_ZERO

fun BASE_SCORES :: "ClearType \<Rightarrow> int" where
  "BASE_SCORES NONE = 0"
| "BASE_SCORES SINGLE = 100"
| "BASE_SCORES DOUBLE = 300"
| "BASE_SCORES TRIPLE = 500"
| "BASE_SCORES TETRIS = 800"
| "BASE_SCORES TSPIN_MINI = 100"
| "BASE_SCORES TSPIN_ZERO = 400"
| "BASE_SCORES TSPIN_SINGLE = 800"
| "BASE_SCORES TSPIN_DOUBLE = 1200"
| "BASE_SCORES TSPIN_TRIPLE = 1600"

definition isDifficultClear :: "ClearType \<Rightarrow> bool" where
  "isDifficultClear clearType \<longleftrightarrow>
     clearType = TETRIS \<or> clearType = TSPIN_SINGLE \<or> clearType = TSPIN_DOUBLE \<or>
     clearType = TSPIN_TRIPLE \<or> clearType = TSPIN_MINI"

record ScoringState =
  score :: int
  combo :: int
  backToBack :: int
  lastClearType :: ClearType

definition createScoringState :: ScoringState where
  "createScoringState =
     \<lparr>score = 0, combo = -1, backToBack = -1, lastClearType = NONE\<rparr>"

text \<open>
  The result record of \<open>processLineClear\<close>; its field \<open>combo\<close> is named \<open>resultCombo\<close>
  here, the name \<open>combo\<close> being the field of \<open>ScoringState\<close>.
\<close>

record ClearResult =
  clearType :: ClearType
  scoreAwarded :: int
  isBackToBack :: bool
  resultCombo :: int

definition determineClearType :: "int \<Rightarrow> bool \<Rightarrow> bool \<Rightarrow> ClearType" where
  "determineClearType linesCleared isTSpin isTSpinMini =
     (if isTSpin \<or> isTSpinMini then
        if isTSpinMini \<and> linesCleared \<le> 1 then
          (if linesCleared = 0 then TSPIN_ZERO else TSPIN_MINI)
        else if linesCleared = 0 then TSPIN_ZERO
        else if linesCleared = 1 then TSPIN_SINGLE
        else if linesCleared = 2 then TSPIN_DOUBLE
        else if linesCleared = 3 then TSPIN_TRIPLE
        else TSPIN_TRIPLE
      else if linesCleared = 0 then NONE
      else if linesCleared = 1 then SINGLE
      else if linesCleared = 2 then DOUBLE
      else if linesCleared = 3 then TRIPLE
      else TETRIS)"

text \<open>
  \<open>processLineClear\<close> mutates the scoring state and returns the result; the model returns
  both. \<open>Math.floor(score * 1.5)\<close> is the floor of the exact product (the product of an
  integer score below \<open>2^52\<close> and 1.5 is exact in double precision).
\<close>

definition processLineClear ::
    "ScoringState \<Rightarrow> int \<Rightarrow> int \<Rightarrow> bool \<Rightarrow> bool \<Rightarrow> ClearResult \<times> ScoringState" where
  "processLineClear state linesCleared level isTSpin isTSpinMini =
     (let clearType = determineClearType linesCleared isTSpin isTSpinMini in
      if clearType = NONE \<and> \<not> isTSpin \<and> \<not> isTSpinMini then
        (\<lparr>clearType = clearType, scoreAwarded = 0, isBackToBack = False, resultCombo = -1\<rparr>,
         state\<lparr>combo := -1, lastClearType := NONE\<rparr>)
      else
        let state1 = state\<lparr>combo := combo state + 1\<rparr>;
            score0 = BASE_SCORES clearType * level;
            (score1, isB2B, state2) =
              (if isDifficultClear clearType then
                 let (sc, b) = (if backToBack state1 \<ge> 0
                                then (\<lfloor>real_of_int score0 * 1.5\<rfloor>, True)
                                else (score0, False))
                 in (sc, b, state1\<lparr>backToBack := max 0 (backToBack state1) + 1\<rparr>)
               else if linesCleared > 0 then (score0, False, state1\<lparr>backToBack := -1\<rparr>)
               else (score0, False, state1));
            score2 = (if combo state2 > 0 then score1 + 50 * combo state2 * level else score1);
            state3 = state2\<lparr>score := score state2 + score2, lastClearType := clearType\<rparr>
        in (\<lparr>clearType = clearType, scoreAwarded = score2, isBackToBack = isB2B,
             resultCombo = combo state3\<rparr>, state3))"

definition scoreSoftDrop :: "ScoringState \<Rightarrow> int \<Rightarrow> ScoringState" where
  "scoreSoftDrop state cells = state\<lparr>score := score state + cells\<rparr>"

definition scoreHardDrop :: "ScoringState \<Rightarrow> int \<Rightarrow> ScoringState" where
  "scoreHardDrop state cells = state\<lparr>score := score state + cells * 2\<rparr>"

text \<open>
  Claim C4. The combo counter of a scoring state is \<open>-1\<close> or a count from 0 (the data
  model; \<open>createScoringState\<close> starts at \<open>-1\<close> and \<open>processLineClear\<close> keeps it there or
  above). For every such state and every call: a difficult clear on a state whose
  \<open>backToBack\<close> is at least 0 awards the floor of base score times level times 1.5, plus
  50 times the incremented combo times level, reports \<open>isBackToBack\<close>, and adds one to
  \<open>backToBack\<close>; a clear that is not difficult and has \<open>linesCleared > 0\<close> sets
  \<open>backToBack\<close> to \<open>-1\<close>. From a fresh state at level 1, two tetrises in a row award 800
  and then 1250; with a single in between, the second tetris is not back-to-back and awards
  800 plus its combo bonus of 100, with no multiplier.
\<close>

theorem processLineClear_backToBack:
  assumes "combo state \<ge> -1"
  shows "(case processLineClear state linesCleared level isTSpin isTSpinMini of
      (result, state') \<Rightarrow>
        (isDifficultClear (determineClearType linesCleared isTSpin isTSpinMini)
           \<and> backToBack state \<ge> 0 \<longrightarrow>
             scoreAwarded result =
               \<lfloor>real_of_int (BASE_SCORES (determineClearType linesCleared isTSpin isTSpinMini))
                  * real_of_int level * 1.5\<rfloor>
               + 50 * (combo state + 1) * level
           \<and> resultCombo result = combo state + 1
           \<and> isBackToBack result
           \<and> backToBack state' = backToBack state + 1)
      \<and> (\<not> isDifficultClear (determineClearType linesCleared isTSpin isTSpinMini)
           \<and> linesCleared > 0 \<longrightarrow> backToBack state' = -1)
      \<and> combo state' \<ge> -1)
   \<and> (case processLineClear createScoringState 4 1 False False of (tetris1, s1) \<Rightarrow>
        scoreAwarded tetris1 = 800 \<and>
        (case processLineClear s1 4 1 False False of (tetris2, s2) \<Rightarrow>
           scoreAwarded tetris2 = 1250 \<and> isBackToBack tetris2))
   \<and> (case processLineClear createScoringState 4 1 False False of (tetris1, s1) \<Rightarrow>
        (case processLineClear s1 1 1 False False of (single, s2) \<Rightarrow>
           (case processLineClear s2 4 1 False False of (tetris2, s3) \<Rightarrow>
              clearType single = SINGLE \<and> clearType tetris2 = TETRIS \<and>
              \<not> isBackToBack tetris2 \<and> scoreAwarded tetris2 = 800 * 1 + 50 * 2 * 1)))"
proof -
  have general: "case processLineClear state linesCleared level isTSpin isTSpinMini of
      (result, state') \<Rightarrow>
        (isDifficultClear (determineClearType linesCleared isTSpin isTSpinMini)
           \<and> backToBack state \<ge> 0 \<longrightarrow>
             scoreAwarded result =
               \<lfloor>real_of_int (BASE_SCORES (determineClearType linesCleared isTSpin isTSpinMini))
                  * real_of_int level * 1.5\<rfloor>
               + 50 * (combo state + 1) * level
           \<and> resultCombo result = combo state + 1
           \<and> isBackToBack result
           \<and> backToBack state' = backToBack state + 1)
      \<and> (\<not> isDifficultClear (determineClearType linesCleared isTSpin isTSpinMini)
           \<and> linesCleared > 0 \<longrightarrow> backToBack state' = -1)
      \<and> combo state' \<ge> -1"
    using assms
    by (auto simp: processLineClear_def Let_def isDifficultClear_def determineClearType_def
             split: if_splits)
  have two: "case processLineClear createScoringState 4 1 False False of (tetris1, s1) \<Rightarrow>
        scoreAwarded tetris1 = 800 \<and>
        (case processLineClear s1 4 1 False False of (tetris2, s2) \<Rightarrow>
           scoreAwarded tetris2 = 1250 \<and> isBackToBack tetris2)"
    by (simp add: processLineClear_def Let_def isDifficultClear_def determineClearType_def
          createScoringState_def)
  have three: "case processLineClear createScoringState 4 1 False False of (tetris1, s1) \<Rightarrow>
        (case processLineClear s1 1 1 False False of (single, s2) \<Rightarrow>
           (case processLineClear s2 4 1 False False of (tetris2, s3) \<Rightarrow>
              clearType single = SINGLE \<and> clearType tetris2 = TETRIS \<and>
              \<not> isBackToBack tetris2 \<and> scoreAwarded tetris2 = 800 * 1 + 50 * 2 * 1))"
    by (simp add: processLineClear_def Let_def isDifficultClear_def determineClearType_def
          createScoringState_def)
  from general two three show ?thesis by blast
qed

theorem processLineClear_backToBack_witness:
  "combo \<lparr>score = 800, combo = 0, backToBack = 0, lastClearType = TETRIS\<rparr> \<ge> -1
   \<and> isDifficultClear (determineClearType 4 False False)
   \<and> (case processLineClear \<lparr>score = 800, combo = 0, backToBack = 0, lastClearType = TETRIS\<rparr>
              4 2 False False of
        (result, state') \<Rightarrow>
          scoreAwarded result = 2500 \<and> isBackToBack result \<and> backToBack state' = 1)
   \<and> \<not> isDifficultClear (determineClearType 2 False False)
   \<and> (case processLineClear \<lparr>score = 800, combo = 0, backToBack = 0, lastClearType = TETRIS\<rparr>
              2 2 False False of
        (result, state') \<Rightarrow> backToBack state' = -1)"
  using processLineClear_backToBack[where state = "\<lparr>score = 800, combo = 0, backToBack = 0, lastClearType = TETRIS\<rparr>"
          and linesCleared = 4 and level = 2 and isTSpin = False and isTSpinMini = False]
        processLineClear_backToBack[where state = "\<lparr>score = 800, combo = 0, backToBack = 0, lastClearType = TETRIS\<rparr>"
          and linesCleared = 2 and level = 2 and isTSpin = False and isTSpinMini = False]
  by (simp add: isDifficultClear_def determineClearType_def split: prod.splits)

section \<open>RotationSystem.ts\<close>

text \<open>
  The kick tables are objects keyed by the string \<open>from>to\<close>; the model keys them by the
  pair \<open>(from, to)\<close>. Each entry lists \<open>[colOffset, rowOffset]\<close> pairs.
\<close>

definition JLSTZ_KICKS :: "int \<times> int \<Rightarrow> (int \<times> int) list option" where
  "JLSTZ_KICKS = map_of
     [((0, 1), [(0, 0), (-1, 0), (-1, -1), (0, 2), (-1, 2)]),
      ((1, 0), [(0, 0), (1, 0), (1, 1), (0, -2), (1, -2)]),
      ((1, 2), [(0, 0), (1, 0), (1, 1), (0, -2), (1, -2)]),
      ((2, 1), [(0, 0), (-1, 0), (-1, -1), (0, 2), (-1, 2)]),
      ((2, 3), [(0, 0), (1, 0), (1, -1), (0, 2), (1, 2)]),
      ((3, 2), [(0, 0), (-1, 0), (-1, 1), (0, -2), (-1, -2)]),
      ((3, 0), [(0, 0), (-1, 0), (-1, 1), (0, -2), (-1, -2)]),
      ((0, 3), [(0, 0), (1, 0), (1, -1), (0, 2), (1, 2)])]"

definition I_KICKS :: "int \<times> int \<Rightarrow> (int \<times> int) list option" where
  "I_KICKS = map_of
     [((0, 1), [(0, 0), (-2, 0), (1, 0), (-2, 1), (1, -2)]),
      ((1, 0), [(0, 0), (2, 0), (-1, 0), (2, -1), (-1, 2)]),
      ((1, 2), [(0, 0), (-1, 0), (2, 0), (-1, -2), (2, 1)]),
      ((2, 1), [(0, 0), (1, 0), (-2, 0), (1, 2), (-2, -1)]),
      ((2, 3), [(0, 0), (2, 0), (-1, 0), (2, -1), (-1, 2)]),
      ((3, 2), [(0, 0), (-2, 0), (1, 0), (-2, 1), (1, -2)]),
      ((3, 0), [(0, 0), (1, 0), (-2, 0), (1, 2), (-2, -1)]),
      ((0, 3), [(0, 0), (-1, 0), (2, 0), (-1, -2), (2, 1)])]"

record RotationResult =
  newRotation :: int
  kickCol :: int
  kickRow :: int
  isTSpin :: bool
  isTSpinMini :: bool

text \<open>
  \<open>checkTSpin\<close> returns \<open>{isTSpin, isMini}\<close>, here a pair. The center is read as
  \<open>cells[2]\<close>, the third cell of the rotation state.
\<close>

definition checkTSpin :: "Board \<Rightarrow> int \<Rightarrow> int \<Rightarrow> int \<Rightarrow> int \<Rightarrow> int \<Rightarrow> bool \<times> bool" where
  "checkTSpin board rotation originRow originCol kickColOff kickRowOff =
     (let cells = getCells Piece_T rotation;
          center = cells ! 2;
          centerRow = originRow + fst center;
          centerCol = originCol + snd center;
          corners = [(centerRow - 1, centerCol - 1), (centerRow - 1, centerCol + 1),
                     (centerRow + 1, centerCol - 1), (centerRow + 1, centerCol + 1)];
          cornerOccupied = map (\<lambda>(r, c). getCell board r c \<noteq> Val None) corners;
          occupiedCount = length (filter (\<lambda>b. b) cornerOccupied)
      in if occupiedCount < 3 then (False, False)
         else
           let frontCorners =
                 (if rotation = 0 then (0, 1)
                  else if rotation = 1 then (1, 3)
                  else if rotation = 2 then (2, 3)
                  else if rotation = 3 then (0, 2)
                  else (0, 1));
               bothFrontOccupied =
                 (cornerOccupied ! fst frontCorners \<and> cornerOccupied ! snd frontCorners)
           in if bothFrontOccupied then (True, False)
              else
                let isSignificantKick = (\<bar>kickColOff\<bar> > 1 \<or> \<bar>kickRowOff\<bar> > 1)
                in if isSignificantKick then (True, False) else (True, True))"

text \<open>The \<open>for\<close> loop of \<open>tryRotate\<close> over the kick list: the first valid candidate wins.\<close>

fun tryKicks ::
    "Board \<Rightarrow> PieceType \<Rightarrow> int \<Rightarrow> int \<Rightarrow> int \<Rightarrow> (int \<times> int) list \<Rightarrow> RotationResult option" where
  "tryKicks board ptype toState originRow originCol [] = None"
| "tryKicks board ptype toState originRow originCol ((colOff, rowOff) # kicks) =
     (let newCol = originCol + colOff;
          newRow = originRow - rowOff
      in if isValidPosition board ptype toState newRow newCol then
           let (tSpin, tSpinMini) =
                 (if ptype = Piece_T
                  then checkTSpin board toState newRow newCol colOff rowOff
                  else (False, False))
           in Some \<lparr>newRotation = toState, kickCol = colOff, kickRow = - rowOff,
                     isTSpin = tSpin, isTSpinMini = tSpinMini\<rparr>
         else tryKicks board ptype toState originRow originCol kicks)"

text \<open>
  \<open>tryRotate\<close>. The operator \<open>%\<close> of JavaScript truncates towards zero: it is \<open>smod\<close>.
  \<open>direction\<close> is \<open>1\<close> (clockwise) or \<open>-1\<close>.
\<close>

definition tryRotate ::
    "Board \<Rightarrow> PieceType \<Rightarrow> int \<Rightarrow> int \<Rightarrow> int \<Rightarrow> int \<Rightarrow> RotationResult option" where
  "tryRotate board ptype currentRotation originRow originCol direction =
     (let fromState = currentRotation AND 3;
          toState = ((currentRotation + direction) smod 4 + 4) smod 4
      in if ptype = Piece_O then None
         else
           case (if ptype = Piece_I then I_KICKS (fromState, toState)
                 else JLSTZ_KICKS (fromState, toState)) of
             None \<Rightarrow> None
           | Some kicks \<Rightarrow> tryKicks board ptype toState originRow originCol kicks)"

text \<open>An example board: three of the four diagonal neighbours of cell (31, 4) are filled.\<close>

definition tSlotBoard :: Board where
  "tSlotBoard = createEmptyGrid
     [30 := (createEmptyGrid ! 30)[3 := Some Piece_J, 5 := Some Piece_J],
      32 := (createEmptyGrid ! 32)[3 := Some Piece_J]]"

section \<open>Properties of the rotation system\<close>

lemma getCell_valid:
  "0 \<le> r \<Longrightarrow> r < 40 \<Longrightarrow> 0 \<le> c \<Longrightarrow> c < 10 \<Longrightarrow> getCell board r c = Val (board ! nat r ! nat c)"
  by (simp add: getCell_def board_consts)

lemma tSlotBoard_eval:
  "map (\<lambda>(r, c). getCell tSlotBoard r c) [(30, 3), (30, 5), (32, 3), (32, 5), (30, 4), (30, 6), (32, 4), (32, 6)]
     = [Val (Some Piece_J), Val (Some Piece_J), Val (Some Piece_J), Val None, Val None, Val None, Val None, Val None]"
  by (simp add: getCell_def tSlotBoard_def createEmptyGrid_def board_consts)

text \<open>
  Claim C1, evaluated on the code. The pivot of the T piece is the cell at offset (1, 1),
  which every rotation state contains. \<open>checkTSpin\<close> takes \<open>cells[2]\<close> as the center:
  that is (1, 1) in states 0 and 3 but (1, 2) in states 1 and 2. On \<open>tSlotBoard\<close> a T
  piece at origin (30, 3) in state 0 rotates clockwise in place into state 1. Its pivot
  is then at (31, 4), and three of the four diagonal neighbours of the pivot are filled;
  the code inspects the neighbours of (31, 5) instead, finds none filled and answers that
  this is not a T-spin.
\<close>

theorem checkTSpin_center_state1:
  "map (\<lambda>rotation. getCells Piece_T rotation ! 2) [0, 1, 2, 3] = [(1, 1), (1, 2), (1, 2), (1, 1)]
   \<and> map (\<lambda>rotation. (1, 1) \<in> set (getCells Piece_T rotation)) [0, 1, 2, 3]
        = [True, True, True, True]
   \<and> isValidPosition tSlotBoard Piece_T 0 30 3
   \<and> map (\<lambda>(r, c). getCell tSlotBoard r c \<noteq> Val None) [(30, 3), (30, 5), (32, 3), (32, 5)]
        = [True, True, True, False]
   \<and> tryRotate tSlotBoard Piece_T 0 30 3 1 =
        Some \<lparr>newRotation = 1, kickCol = 0, kickRow = 0, isTSpin = False, isTSpinMini = False\<rparr>"
proof -
  have cells: "map (\<lambda>rotation. getCells Piece_T rotation ! 2) [0, 1, 2, 3]
      = [(1, 1), (1, 2), (1, 2), (1, 1)]"
    by (simp add: getCells_def)
  have pivot: "map (\<lambda>rotation. (1, 1) \<in> set (getCells Piece_T rotation)) [0, 1, 2, 3]
      = [True, True, True, True]"
    by (simp add: getCells_def)
  have valid0: "isValidPosition tSlotBoard Piece_T 0 30 3"
    by (simp add: isValidPosition_def getAbsoluteCells_def getCells_def tSlotBoard_def
          createEmptyGrid_def board_consts)
  have valid1: "isValidPosition tSlotBoard Piece_T 1 30 3"
    by (simp add: isValidPosition_def getAbsoluteCells_def getCells_def tSlotBoard_def
          createEmptyGrid_def board_consts)
  have corners: "map (\<lambda>(r, c). getCell tSlotBoard r c \<noteq> Val None)
      [(30, 3), (30, 5), (32, 3), (32, 5)] = [True, True, True, False]"
    using tSlotBoard_eval by simp
  have check: "checkTSpin tSlotBoard 1 30 3 0 0 = (False, False)"
    using tSlotBoard_eval by (simp add: checkTSpin_def getCells_def Let_def)
  have rot: "tryRotate tSlotBoard Piece_T 0 30 3 1 =
      Some \<lparr>newRotation = 1, kickCol = 0, kickRow = 0, isTSpin = False, isTSpinMini = False\<rparr>"
    using valid1 check by (simp add: tryRotate_def JLSTZ_KICKS_def signed_modulo_int_def)
  from cells pivot valid0 corners rot show ?thesis by blast
qed

text \<open>
  In rotation state 1 two of the four cells that \<open>checkTSpin\<close> inspects are cells of the T
  piece itself, so a rotation into state 1 is never classified as a T-spin.
\<close>

lemma checkTSpin_state1_never:
  assumes "isValidPosition grid Piece_T 1 y x"
  shows "checkTSpin grid 1 y x kickColOff kickRowOff = (False, False)"
proof -
  have cells: "getAbsoluteCells Piece_T 1 y x = [(y, 1 + x), (1 + y, 1 + x), (1 + y, 2 + x), (2 + y, 1 + x)]"
    by (simp add: getAbsoluteCells_def getCells_def)
  from assms have top: "getCell grid y (x + 1) = Val None"
    and bottom: "getCell grid (y + 2) (x + 1) = Val None"
    unfolding isValidPosition_iff cells by (auto simp: getCell_def board_consts algebra_simps)
  show ?thesis
    using top bottom by (simp add: checkTSpin_def getCells_def Let_def algebra_simps)
qed

text \<open>
  What the caller does with a successful result (\<open>GameState.tryRotation\<close>): it adopts the
  new rotation state and adds the kick offsets to the origin. The clockwise rotations below
  are chained in this way.
\<close>

lemma tryRotate_cw_in_place:
  assumes "ptype \<noteq> Piece_O" and "rotation \<in> {0, 1, 2, 3}"
    and "isValidPosition board ptype ((rotation + 1) mod 4) row col"
  shows "\<exists>res. tryRotate board ptype rotation row col 1 = Some res
          \<and> newRotation res = (rotation + 1) mod 4 \<and> kickCol res = 0 \<and> kickRow res = 0"
proof -
  consider "rotation = 0" | "rotation = 1" | "rotation = 2" | "rotation = 3"
    using assms(2) by auto
  then show ?thesis
  proof cases
    case 1
    then show ?thesis using assms(1,3)
      by (cases "ptype = Piece_I")
         (simp_all add: tryRotate_def JLSTZ_KICKS_def I_KICKS_def signed_modulo_int_def
            split: prod.splits)
  next
    case 2
    then show ?thesis using assms(1,3)
      by (cases "ptype = Piece_I")
         (simp_all add: tryRotate_def JLSTZ_KICKS_def I_KICKS_def signed_modulo_int_def
            split: prod.splits)
  next
    case 3
    then show ?thesis using assms(1,3)
      by (cases "ptype = Piece_I")
         (simp_all add: tryRotate_def JLSTZ_KICKS_def I_KICKS_def signed_modulo_int_def
            split: prod.splits)
  next
    case 4
    then show ?thesis using assms(1,3)
      by (cases "ptype = Piece_I")
         (simp_all add: tryRotate_def JLSTZ_KICKS_def I_KICKS_def signed_modulo_int_def
            split: prod.splits)
  qed
qed

text \<open>
  Claim C8. For a piece other than O in rotation state 0 to 3, on a board where the piece
  fits at its origin in each of the four rotation states (open space: the first candidate
  of every kick list is the offset (0, 0), so this holds in particular where all candidates
  are valid), four successive clockwise calls of \<open>tryRotate\<close>, each from the rotation
  state and origin that the previous call gives, all succeed; the last returns the original
  rotation state, the origin is back where it was, and the kick offsets sum to zero.
\<close>

theorem tryRotate_cw_four_times:
  assumes "ptype \<noteq> Piece_O" and "rotation \<in> {0, 1, 2, 3}"
    and "list_all (\<lambda>st. isValidPosition board ptype st row col) [0, 1, 2, 3]"
  shows "\<exists>r1 r2 r3 r4.
      tryRotate board ptype rotation row col 1 = Some r1
    \<and> tryRotate board ptype (newRotation r1) (row + kickRow r1) (col + kickCol r1) 1 = Some r2
    \<and> tryRotate board ptype (newRotation r2)
          (row + kickRow r1 + kickRow r2) (col + kickCol r1 + kickCol r2) 1 = Some r3
    \<and> tryRotate board ptype (newRotation r3)
          (row + kickRow r1 + kickRow r2 + kickRow r3)
          (col + kickCol r1 + kickCol r2 + kickCol r3) 1 = Some r4
    \<and> newRotation r4 = rotation
    \<and> row + kickRow r1 + kickRow r2 + kickRow r3 + kickRow r4 = row
    \<and> col + kickCol r1 + kickCol r2 + kickCol r3 + kickCol r4 = col
    \<and> kickRow r1 + kickRow r2 + kickRow r3 + kickRow r4 = 0
    \<and> kickCol r1 + kickCol r2 + kickCol r3 + kickCol r4 = 0"
proof -
  have valid: "\<And>st. st \<in> {0, 1, 2, 3} \<Longrightarrow> isValidPosition board ptype st row col"
    using assms(3) by auto
  have next_state: "\<And>st::int. st \<in> {0, 1, 2, 3} \<Longrightarrow> (st + 1) mod 4 \<in> {0, 1, 2, 3}"
    by auto
  have step: "\<And>st. st \<in> {0, 1, 2, 3} \<Longrightarrow>
      \<exists>res. tryRotate board ptype st row col 1 = Some res
          \<and> newRotation res = (st + 1) mod 4 \<and> kickCol res = 0 \<and> kickRow res = 0"
    using tryRotate_cw_in_place[OF assms(1)] valid next_state by blast
  obtain r1 where r1: "tryRotate board ptype rotation row col 1 = Some r1"
      "newRotation r1 = (rotation + 1) mod 4" "kickCol r1 = 0" "kickRow r1 = 0"
    using step[OF assms(2)] by blast
  have s1: "newRotation r1 \<in> {0, 1, 2, 3}" using r1(2) next_state[OF assms(2)] by simp
  obtain r2 where r2: "tryRotate board ptype (newRotation r1) row col 1 = Some r2"
      "newRotation r2 = (newRotation r1 + 1) mod 4" "kickCol r2 = 0" "kickRow r2 = 0"
    using step[OF s1] by blast
  have s2: "newRotation r2 \<in> {0, 1, 2, 3}" using r2(2) next_state[OF s1] by simp
  obtain r3 where r3: "tryRotate board ptype (newRotation r2) row col 1 = Some r3"
      "newRotation r3 = (newRotation r2 + 1) mod 4" "kickCol r3 = 0" "kickRow r3 = 0"
    using step[OF s2] by blast
  have s3: "newRotation r3 \<in> {0, 1, 2, 3}" using r3(2) next_state[OF s2] by simp
  obtain r4 where r4: "tryRotate board ptype (newRotation r3) row col 1 = Some r4"
      "newRotation r4 = (newRotation r3 + 1) mod 4" "kickCol r4 = 0" "kickRow r4 = 0"
    using step[OF s3] by blast
  have returns: "newRotation r4 = rotation"
    using assms(2) by (elim insertE emptyE) (simp_all add: r1(2) r2(2) r3(2) r4(2))
  show ?thesis
    using r1(1,3,4) r2(1,3,4) r3(1,3,4) r4(1,3,4) returns
    by (intro exI[of _ r1] exI[of _ r2] exI[of _ r3] exI[of _ r4]) simp
qed

lemma createEmptyGrid_valid_20_3:
  "list_all (\<lambda>st. isValidPosition createEmptyGrid Piece_T st 20 3) [0, 1, 2, 3]"
  by (simp add: isValidPosition_def getAbsoluteCells_def getCells_def createEmptyGrid_def
        board_consts)

theorem tryRotate_cw_four_times_witness:
  "Piece_T \<noteq> Piece_O \<and> (0::int) \<in> {0, 1, 2, 3}
   \<and> list_all (\<lambda>st. isValidPosition createEmptyGrid Piece_T st 20 3) [0, 1, 2, 3]
   \<and> (\<exists>r1 r2 r3 r4.
      tryRotate createEmptyGrid Piece_T 0 20 3 1 = Some r1
    \<and> tryRotate createEmptyGrid Piece_T (newRotation r1) (20 + kickRow r1) (3 + kickCol r1) 1 = Some r2
    \<and> tryRotate createEmptyGrid Piece_T (newRotation r2)
          (20 + kickRow r1 + kickRow r2) (3 + kickCol r1 + kickCol r2) 1 = Some r3
    \<and> tryRotate createEmptyGrid Piece_T (newRotation r3)
          (20 + kickRow r1 + kickRow r2 + kickRow r3)
          (3 + kickCol r1 + kickCol r2 + kickCol r3) 1 = Some r4
    \<and> newRotation r4 = 0
    \<and> kickRow r1 + kickRow r2 + kickRow r3 + kickRow r4 = 0
    \<and> kickCol r1 + kickCol r2 + kickCol r3 + kickCol r4 = 0)"
proof -
  have h1: "Piece_T \<noteq> Piece_O" by simp
  have h2: "(0::int) \<in> {0, 1, 2, 3}" by simp
  from tryRotate_cw_four_times[OF h1 h2 createEmptyGrid_valid_20_3]
  show ?thesis using createEmptyGrid_valid_20_3 by blast
qed

section \<open>BagRandomizer.ts\<close>

text \<open>
  The injected random source is an impure function \<open>() => number\<close>. The model holds the
  sequence of its outputs, \<open>rng\<close>, and the number of outputs consumed so far,
  \<open>rngCalls\<close>; the shuffle reads \<open>rng rngCalls\<close> and counts on. Its outputs are taken as
  real numbers; the product \<open>rng() * (i + 1)\<close> of the source is a double-precision
  product, the model's is exact. The proofs below use of the index \<open>j\<close> only that it
  lies between 0 and \<open>i\<close>.

  The result type \<open>option\<close> stands for the values the declared types of the source
  exclude: \<open>None\<close> is returned where an array of \<open>PieceType\<close> would receive \<open>undefined\<close>
  (a shuffle index outside the array) and where \<open>shift()!\<close> is applied to an empty array.
\<close>

record BagRandomizer =
  bag :: "PieceType list"
  nextBag :: "PieceType list"
  rng :: "nat \<Rightarrow> real"
  rngCalls :: nat

text \<open>
  \<open>shuffle\<close>: the loop \<open>for (i = arr.length - 1; i > 0; i--)\<close>; \<open>shuffleFrom\<close> is the loop
  from index \<open>i\<close> down. The destructuring swap reads both cells before it writes.
\<close>

fun shuffleFrom ::
    "(nat \<Rightarrow> real) \<Rightarrow> nat \<Rightarrow> nat \<Rightarrow> PieceType list \<Rightarrow> (PieceType list \<times> nat) option" where
  "shuffleFrom rnd calls 0 arr = Some (arr, calls)"
| "shuffleFrom rnd calls (Suc i) arr =
     (let j = \<lfloor>rnd calls * real (Suc i + 1)\<rfloor>
      in if 0 \<le> j \<and> nat j < length arr
         then shuffleFrom rnd (Suc calls) i (arr[Suc i := arr ! nat j, nat j := arr ! Suc i])
         else None)"

definition shuffle :: "(nat \<Rightarrow> real) \<Rightarrow> nat \<Rightarrow> PieceType list \<Rightarrow> (PieceType list \<times> nat) option" where
  "shuffle rnd calls arr = shuffleFrom rnd calls (length arr - 1) arr"

definition fillBag :: "BagRandomizer \<Rightarrow> BagRandomizer option" where
  "fillBag r =
     (case shuffle (rng r) (rngCalls r) ALL_PIECE_TYPES of
        None \<Rightarrow> None
      | Some (arr, calls) \<Rightarrow> Some (r\<lparr>bag := arr, rngCalls := calls\<rparr>))"

definition fillNextBag :: "BagRandomizer \<Rightarrow> BagRandomizer option" where
  "fillNextBag r =
     (case shuffle (rng r) (rngCalls r) ALL_PIECE_TYPES of
        None \<Rightarrow> None
      | Some (arr, calls) \<Rightarrow> Some (r\<lparr>nextBag := arr, rngCalls := calls\<rparr>))"

text \<open>The constructor, for an injected random source.\<close>

definition newBagRandomizer :: "(nat \<Rightarrow> real) \<Rightarrow> BagRandomizer option" where
  "newBagRandomizer rnd =
     (case fillBag \<lparr>bag = [], nextBag = [], rng = rnd, rngCalls = 0\<rparr> of
        None \<Rightarrow> None
      | Some r \<Rightarrow> fillNextBag r)"

text \<open>\<open>BagRandomizer.next\<close> (\<open>next\<close> is a keyword of Isar, hence the longer name).\<close>

definition nextPiece :: "BagRandomizer \<Rightarrow> (PieceType \<times> BagRandomizer) option" where
  "nextPiece r =
     (case (if length (bag r) = 0 then fillNextBag (r\<lparr>bag := nextBag r\<rparr>) else Some r) of
        None \<Rightarrow> None
      | Some r1 \<Rightarrow>
          (case bag r1 of
             [] \<Rightarrow> None
           | p # rest \<Rightarrow> Some (p, r1\<lparr>bag := rest\<rparr>)))"

text \<open>\<open>preview\<close> copies both bags and assigns no field.\<close>

definition preview :: "BagRandomizer \<Rightarrow> nat \<Rightarrow> PieceType list" where
  "preview r n = (let combined = bag r @ nextBag r in take n combined)"

definition reset :: "BagRandomizer \<Rightarrow> BagRandomizer option" where
  "reset r = (case fillBag r of None \<Rightarrow> None | Some r1 \<Rightarrow> fillNextBag r1)"

text \<open>
  A client of the randomizer: a sequence of calls of \<open>next\<close> and \<open>preview\<close>.
  \<open>runCalls\<close> performs them in order and collects what the calls of \<open>next\<close> return.
\<close>

datatype RandomizerCall = CallNext | CallPreview nat

fun runCalls :: "RandomizerCall list \<Rightarrow> BagRandomizer \<Rightarrow> (PieceType list \<times> BagRandomizer) option" where
  "runCalls [] r = Some ([], r)"
| "runCalls (CallNext # calls) r =
     (case nextPiece r of
        None \<Rightarrow> None
      | Some (p, r1) \<Rightarrow>
          (case runCalls calls r1 of
             None \<Rightarrow> None
           | Some (ps, r2) \<Rightarrow> Some (p # ps, r2)))"
| "runCalls (CallPreview n # calls) r = (let shown = preview r n in runCalls calls r)"

text \<open>A random source in order: every output lies in \<open>[0, 1)\<close>.\<close>

definition rng_ok :: "(nat \<Rightarrow> real) \<Rightarrow> bool" where
  "rng_ok rnd \<longleftrightarrow> (\<forall>n. 0 \<le> rnd n \<and> rnd n < 1)"

text \<open>
  The invariant of the randomizer, relative to the pieces drawn so far: the next bag is a
  permutation of the seven types, and the pieces drawn followed by the rest of the current
  bag are a sequence of whole bags, each a permutation of the seven types.
\<close>

definition bagInv :: "PieceType list \<Rightarrow> BagRandomizer \<Rightarrow> bool" where
  "bagInv drawn r \<longleftrightarrow>
     rng_ok (rng r) \<and> mset (nextBag r) = mset ALL_PIECE_TYPES \<and>
     (\<exists>bags. drawn @ bag r = concat bags \<and> (\<forall>b \<in> set bags. mset b = mset ALL_PIECE_TYPES))"

section \<open>Properties of the randomizer\<close>

lemma rng_index_range:
  assumes "0 \<le> x" "x < 1"
  shows "0 \<le> \<lfloor>x * real (Suc i + 1)\<rfloor> \<and> nat \<lfloor>x * real (Suc i + 1)\<rfloor> \<le> Suc i"
proof -
  have "x * real (Suc i + 1) < real (Suc i + 1)" using assms by simp
  then have "\<lfloor>x * real (Suc i + 1)\<rfloor> < int (Suc i + 1)"
    by (simp add: floor_less_iff)
  moreover have "0 \<le> \<lfloor>x * real (Suc i + 1)\<rfloor>" using assms by simp
  ultimately show ?thesis by simp
qed

lemma shuffleFrom_mset:
  assumes "rng_ok rnd" "i < length arr"
  shows "\<exists>arr' calls'. shuffleFrom rnd calls i arr = Some (arr', calls') \<and> mset arr' = mset arr"
  using assms(2)
proof (induction i arbitrary: arr calls)
  case 0
  then show ?case by simp
next
  case (Suc i)
  define j where "j = \<lfloor>rnd calls * real (Suc i + 1)\<rfloor>"
  have range: "0 \<le> j" "nat j \<le> Suc i"
    using rng_index_range[of "rnd calls" i] assms(1) unfolding rng_ok_def j_def by auto
  then have j_lt: "nat j < length arr" using Suc.prems by simp
  let ?arr = "arr[Suc i := arr ! nat j, nat j := arr ! Suc i]"
  have swap: "mset ?arr = mset arr"
    using mset_swap[of "nat j" arr "Suc i"] j_lt Suc.prems by simp
  have "i < length ?arr" using Suc.prems by simp
  from Suc.IH[OF this, of "Suc calls"] obtain arr' calls' where
    "shuffleFrom rnd (Suc calls) i ?arr = Some (arr', calls')" "mset arr' = mset ?arr"
    by blast
  then show ?case using range j_lt swap unfolding j_def by (simp add: Let_def)
qed

lemma shuffle_ALL:
  assumes "rng_ok rnd"
  shows "\<exists>arr calls'. shuffle rnd calls ALL_PIECE_TYPES = Some (arr, calls')
           \<and> mset arr = mset ALL_PIECE_TYPES"
  unfolding shuffle_def
  by (rule shuffleFrom_mset[OF assms]) (simp add: ALL_PIECE_TYPES_def)

lemma fillBag_ok:
  assumes "rng_ok (rng r)"
  shows "\<exists>arr calls'. fillBag r = Some (r\<lparr>bag := arr, rngCalls := calls'\<rparr>)
           \<and> mset arr = mset ALL_PIECE_TYPES"
  using shuffle_ALL[OF assms, of "rngCalls r"] unfolding fillBag_def by fastforce

lemma fillNextBag_ok:
  assumes "rng_ok (rng r)"
  shows "\<exists>arr calls'. fillNextBag r = Some (r\<lparr>nextBag := arr, rngCalls := calls'\<rparr>)
           \<and> mset arr = mset ALL_PIECE_TYPES"
  using shuffle_ALL[OF assms, of "rngCalls r"] unfolding fillNextBag_def by fastforce

lemma newBagRandomizer_inv:
  assumes "rng_ok rnd"
  shows "\<exists>r. newBagRandomizer rnd = Some r \<and> bagInv [] r"
proof -
  let ?r0 = "\<lparr>bag = [], nextBag = [], rng = rnd, rngCalls = 0\<rparr>"
  obtain arr c where a: "fillBag ?r0 = Some (?r0\<lparr>bag := arr, rngCalls := c\<rparr>)"
      "mset arr = mset ALL_PIECE_TYPES"
    using fillBag_ok[of ?r0] assms by auto
  let ?r1 = "?r0\<lparr>bag := arr, rngCalls := c\<rparr>"
  obtain arr2 c2 where b: "fillNextBag ?r1 = Some (?r1\<lparr>nextBag := arr2, rngCalls := c2\<rparr>)"
      "mset arr2 = mset ALL_PIECE_TYPES"
    using fillNextBag_ok[of ?r1] assms by auto
  have "bagInv [] (?r1\<lparr>nextBag := arr2, rngCalls := c2\<rparr>)"
    unfolding bagInv_def using assms a(2) b(2) by (auto intro: exI[of _ "[arr]"])
  then show ?thesis unfolding newBagRandomizer_def using a(1) b(1) by simp
qed

lemma mset_ALL_nonempty: "mset b = mset ALL_PIECE_TYPES \<Longrightarrow> b \<noteq> []"
  by (auto simp: ALL_PIECE_TYPES_def)

lemma nextPiece_inv:
  assumes "bagInv drawn r"
  shows "\<exists>p r'. nextPiece r = Some (p, r') \<and> bagInv (drawn @ [p]) r'"
proof -
  from assms obtain bags where inv: "rng_ok (rng r)" "mset (nextBag r) = mset ALL_PIECE_TYPES"
      "drawn @ bag r = concat bags" "\<forall>b \<in> set bags. mset b = mset ALL_PIECE_TYPES"
    unfolding bagInv_def by blast
  show ?thesis
  proof (cases "bag r")
    case Nil
    let ?r1 = "r\<lparr>bag := nextBag r\<rparr>"
    obtain arr c where f: "fillNextBag ?r1 = Some (?r1\<lparr>nextBag := arr, rngCalls := c\<rparr>)"
        "mset arr = mset ALL_PIECE_TYPES"
      using fillNextBag_ok[of ?r1] inv(1) by auto
    obtain p rest where nb: "nextBag r = p # rest"
      using mset_ALL_nonempty[OF inv(2)] by (cases "nextBag r") auto
    let ?r' = "?r1\<lparr>nextBag := arr, rngCalls := c, bag := rest\<rparr>"
    have np: "nextPiece r = Some (p, ?r')"
      unfolding nextPiece_def using Nil f(1) nb by simp
    have "(drawn @ [p]) @ bag ?r' = concat (bags @ [nextBag r])"
      using inv(3) Nil nb by simp
    then have "bagInv (drawn @ [p]) ?r'"
      unfolding bagInv_def using inv f(2) by (auto intro!: exI[of _ "bags @ [nextBag r]"])
    with np show ?thesis by blast
  next
    case (Cons p rest)
    let ?r' = "r\<lparr>bag := rest\<rparr>"
    have np: "nextPiece r = Some (p, ?r')"
      unfolding nextPiece_def using Cons by simp
    have "bagInv (drawn @ [p]) ?r'"
      unfolding bagInv_def using inv Cons by (auto intro!: exI[of _ bags])
    with np show ?thesis by blast
  qed
qed

lemma runCalls_inv:
  assumes "bagInv drawn r"
  shows "\<exists>draws r'. runCalls calls r = Some (draws, r') \<and> bagInv (drawn @ draws) r'
           \<and> length draws = count_list calls CallNext"
  using assms
proof (induction calls arbitrary: drawn r)
  case Nil
  then show ?case by simp
next
  case (Cons call calls)
  show ?case
  proof (cases call)
    case CallNext
    obtain p r1 where n: "nextPiece r = Some (p, r1)" "bagInv (drawn @ [p]) r1"
      using nextPiece_inv[OF Cons.prems] by blast
    from Cons.IH[OF n(2)] obtain draws r' where
      "runCalls calls r1 = Some (draws, r')" "bagInv ((drawn @ [p]) @ draws) r'"
      "length draws = count_list calls CallNext"
      by blast
    then show ?thesis using n(1) CallNext by simp
  next
    case (CallPreview n)
    from Cons.IH[OF Cons.prems] show ?thesis using CallPreview by (simp add: Let_def)
  qed
qed

lemma mset_ALL_length: "mset b = mset ALL_PIECE_TYPES \<Longrightarrow> length b = 7"
  using mset_eq_length[of b ALL_PIECE_TYPES] by (simp add: ALL_PIECE_TYPES_def)

lemma concat_block:
  assumes "\<forall>b \<in> set bags. length b = 7" "k < length bags"
  shows "take 7 (drop (7 * k) (concat bags)) = bags ! k"
  using assms
proof (induction bags arbitrary: k)
  case Nil
  then show ?case by simp
next
  case (Cons b bags)
  show ?case
  proof (cases k)
    case 0
    then show ?thesis using Cons.prems by simp
  next
    case (Suc k')
    then have "take 7 (drop (7 * k') (concat bags)) = bags ! k'"
      using Cons by simp
    then show ?thesis using Suc Cons.prems by simp
  qed
qed

lemma length_concat_blocks:
  "\<forall>b \<in> set bags. length b = 7 \<Longrightarrow> length (concat bags) = 7 * length bags"
  by (induction bags) auto

lemma bagInv_blocks:
  assumes "bagInv draws r" "7 * k + 7 \<le> length draws"
  shows "mset (take 7 (drop (7 * k) draws)) = mset ALL_PIECE_TYPES"
proof -
  from assms(1) obtain bags where b: "draws @ bag r = concat bags"
      "\<forall>b \<in> set bags. mset b = mset ALL_PIECE_TYPES"
    unfolding bagInv_def by blast
  have len7: "\<forall>b \<in> set bags. length b = 7" using b(2) mset_ALL_length by blast
  have "length draws \<le> length (concat bags)" using b(1)[symmetric] by simp
  then have k: "k < length bags" using length_concat_blocks[OF len7] assms(2) by simp
  have "take 7 (drop (7 * k) draws) = take 7 (drop (7 * k) (draws @ bag r))"
    using assms(2) by simp
  also have "\<dots> = bags ! k" unfolding b(1) by (rule concat_block[OF len7 k])
  finally show ?thesis using b(2) k by simp
qed

text \<open>
  Claim C6. For every random source whose outputs all lie in \<open>[0, 1)\<close> the randomizer is
  constructed, and every sequence of calls of \<open>next\<close> and \<open>preview\<close>, in any order and of
  any length, runs through; for every \<open>k\<close>, the draws numbered \<open>7k + 1\<close> to \<open>7k + 7\<close> that
  it makes contain each of the seven piece types exactly once.
\<close>

theorem bag_draws_permutation:
  assumes "\<forall>n. 0 \<le> rnd n \<and> rnd n < 1"
  shows "\<exists>r0. newBagRandomizer rnd = Some r0 \<and>
           (\<forall>calls. \<exists>draws r'. runCalls calls r0 = Some (draws, r')
              \<and> length draws = count_list calls CallNext
              \<and> (\<forall>k. 7 * k + 7 \<le> length draws \<longrightarrow>
                    mset (take 7 (drop (7 * k) draws)) = mset ALL_PIECE_TYPES))"
proof -
  have "rng_ok rnd" using assms by (simp add: rng_ok_def)
  then obtain r0 where r0: "newBagRandomizer rnd = Some r0" "bagInv [] r0"
    using newBagRandomizer_inv by blast
  have "\<exists>draws r'. runCalls calls r0 = Some (draws, r')
              \<and> length draws = count_list calls CallNext
              \<and> (\<forall>k. 7 * k + 7 \<le> length draws \<longrightarrow>
                    mset (take 7 (drop (7 * k) draws)) = mset ALL_PIECE_TYPES)" for calls
  proof -
    obtain draws r' where d: "runCalls calls r0 = Some (draws, r')" "bagInv ([] @ draws) r'"
        "length draws = count_list calls CallNext"
      using runCalls_inv[OF r0(2), of calls] by blast
    then have "\<forall>k. 7 * k + 7 \<le> length draws \<longrightarrow>
        mset (take 7 (drop (7 * k) draws)) = mset ALL_PIECE_TYPES"
      using bagInv_blocks[of draws r'] by simp
    with d show ?thesis by blast
  qed
  with r0(1) show ?thesis by blast
qed

lemma newBagRandomizer_half:
  "newBagRandomizer (\<lambda>_. 1 / 2) =
     Some \<lparr>bag = [Piece_I, Piece_J, Piece_O, Piece_Z, Piece_T, Piece_L, Piece_S],
           nextBag = [Piece_I, Piece_J, Piece_O, Piece_Z, Piece_T, Piece_L, Piece_S],
           rng = (\<lambda>_. 1 / 2), rngCalls = 12\<rparr>"
  by (simp add: newBagRandomizer_def fillBag_def fillNextBag_def shuffle_def ALL_PIECE_TYPES_def
        numeral_eq_Suc)

theorem bag_draws_permutation_witness:
  "(\<forall>n. 0 \<le> (\<lambda>_. 1 / 2 :: real) n \<and> (\<lambda>_. 1 / 2 :: real) n < 1) \<and>
   (\<exists>r0. newBagRandomizer (\<lambda>_. 1 / 2) = Some r0 \<and>
      bag r0 = [Piece_I, Piece_J, Piece_O, Piece_Z, Piece_T, Piece_L, Piece_S] \<and>
      (\<exists>draws r'.
         runCalls [CallNext, CallPreview 3, CallNext, CallNext, CallPreview 14,
                   CallNext, CallNext, CallNext, CallNext] r0 = Some (draws, r')
         \<and> length draws = 7 \<and> 7 * 0 + 7 \<le> length draws
         \<and> mset (take 7 (drop (7 * 0) draws)) = mset ALL_PIECE_TYPES))"
proof -
  let ?calls = "[CallNext, CallPreview 3, CallNext, CallNext, CallPreview 14,
                 CallNext, CallNext, CallNext, CallNext]"
  have h: "\<forall>n. 0 \<le> (\<lambda>_. 1 / 2 :: real) n \<and> (\<lambda>_. 1 / 2 :: real) n < 1" by simp
  from bag_draws_permutation[OF h] obtain r0 where
    r0: "newBagRandomizer (\<lambda>_. 1 / 2) = Some r0"
    and all: "\<And>calls. \<exists>draws r'. runCalls calls r0 = Some (draws, r')
              \<and> length draws = count_list calls CallNext
              \<and> (\<forall>k. 7 * k + 7 \<le> length draws \<longrightarrow>
                    mset (take 7 (drop (7 * k) draws)) = mset ALL_PIECE_TYPES)"
    by blast
  have b: "bag r0 = [Piece_I, Piece_J, Piece_O, Piece_Z, Piece_T, Piece_L, Piece_S]"
    using r0 newBagRandomizer_half by auto
  obtain draws r' where d: "runCalls ?calls r0 = Some (draws, r')"
      "length draws = count_list ?calls CallNext"
      "\<forall>k. 7 * k + 7 \<le> length draws \<longrightarrow>
          mset (take 7 (drop (7 * k) draws)) = mset ALL_PIECE_TYPES"
    using all[of ?calls] by blast
  have len: "length draws = 7" using d(2) by simp
  then have "mset (take 7 (drop (7 * 0) draws)) = mset ALL_PIECE_TYPES"
    using d(3)[rule_format, of 0] by simp
  with h r0 b d(1) len show ?thesis by auto
qed

section \<open>GameMode.ts\<close>

datatype GameModeType = MARATHON | SPRINT | ULTRA

text \<open>
  \<open>GameModeConfig\<close>; the field \<open>type\<close> is \<open>modeType\<close> here, and the display strings
  \<open>name\<close> and \<open>description\<close>, which no rule reads, are left out. Times are in
  milliseconds and are real numbers in the model.
\<close>

record GameModeConfig =
  modeType :: GameModeType
  startLevel :: int
  linesPerLevel :: "int \<Rightarrow> int"
  maxLevel :: int
  timeLimit :: real
  lineTarget :: int
  isCompletable :: bool

definition isModeCompleted :: "GameModeConfig \<Rightarrow> int \<Rightarrow> int \<Rightarrow> real \<Rightarrow> bool" where
  "isModeCompleted m lvl lines elapsed =
     (if \<not> isCompletable m then False
      else case modeType m of
             MARATHON \<Rightarrow> lvl > maxLevel m
           | SPRINT \<Rightarrow> lines \<ge> lineTarget m
           | ULTRA \<Rightarrow> False)"

definition isTimeExpired :: "GameModeConfig \<Rightarrow> real \<Rightarrow> bool" where
  "isTimeExpired m elapsed \<longleftrightarrow> timeLimit m > 0 \<and> elapsed \<ge> timeLimit m"

text \<open>
  The \<open>while\<close> loop of \<open>calculateLevel\<close>. Every round that continues takes at least one
  line from \<open>linesRemaining\<close>.
\<close>

function calculateLevelFrom :: "GameModeConfig \<Rightarrow> int \<Rightarrow> int \<Rightarrow> int" where
  "calculateLevelFrom m lvl linesRemaining =
     (if linesRemaining > 0 then
        if linesPerLevel m lvl \<le> 0 then lvl
        else if linesRemaining \<ge> linesPerLevel m lvl
             then calculateLevelFrom m (lvl + 1) (linesRemaining - linesPerLevel m lvl)
             else lvl
      else lvl)"
  by pat_completeness auto
termination
  by (relation "measure (\<lambda>(m, lvl, linesRemaining). nat linesRemaining)") auto

definition calculateLevel :: "GameModeConfig \<Rightarrow> int \<Rightarrow> int \<Rightarrow> int" where
  "calculateLevel m start lines = min (calculateLevelFrom m start lines) (maxLevel m + 1)"

text \<open>\<open>Math.pow\<close> with a natural exponent is the power of the reals.\<close>

definition getGravityInterval :: "int \<Rightarrow> real" where
  "getGravityInterval lvl =
     (let seconds = (0.8 - (real_of_int (max 1 lvl) - 1) * 0.007) ^ nat (max 1 lvl - 1)
      in max (seconds * 1000) 16)"

definition MARATHON_MODE :: GameModeConfig where
  "MARATHON_MODE = \<lparr>modeType = MARATHON, startLevel = 1, linesPerLevel = (\<lambda>_. 10),
     maxLevel = 15, timeLimit = 0, lineTarget = 150, isCompletable = True\<rparr>"

definition SPRINT_MODE :: GameModeConfig where
  "SPRINT_MODE = \<lparr>modeType = SPRINT, startLevel = 1, linesPerLevel = (\<lambda>_. 0),
     maxLevel = 1, timeLimit = 0, lineTarget = 40, isCompletable = True\<rparr>"

definition ULTRA_MODE :: GameModeConfig where
  "ULTRA_MODE = \<lparr>modeType = ULTRA, startLevel = 1, linesPerLevel = (\<lambda>_. 10),
     maxLevel = 15, timeLimit = 2 * 60 * 1000, lineTarget = 0, isCompletable = False\<rparr>"

section \<open>GameState.ts\<close>

datatype GameStatus = PLAYING | PAUSED | GAME_OVER | COMPLETED

text \<open>\<open>ActivePiece\<close>; its field \<open>type\<close> is \<open>ptype\<close> here.\<close>

record ActivePiece =
  ptype :: PieceType
  rotation :: int
  row :: int
  col :: int

text \<open>
  \<open>GameEvent\<close>, one constructor for each \<open>type\<close> string, with the event's data:
  a line clear carries the score result, the cleared rows and their number, a hard drop
  the distance, a level-up the new level.
\<close>

datatype GameEvent =
  Ev_line_clear ClearResult "nat list" nat
  | Ev_hard_drop int
  | Ev_lock
  | Ev_hold
  | Ev_game_over
  | Ev_level_up int
  | Ev_completed

definition LOCK_DELAY_MS :: real where "LOCK_DELAY_MS = 500"
definition MAX_LOCK_RESETS :: int where "MAX_LOCK_RESETS = 15"
definition SPAWN_COL :: int where "SPAWN_COL = 3"
definition NEXT_QUEUE_SIZE :: nat where "NEXT_QUEUE_SIZE = 5"

definition getSpawnRow :: "PieceType \<Rightarrow> int" where
  "getSpawnRow t = (if t = Piece_I then int BOARD_BUFFER_ROWS - 2 else int BOARD_BUFFER_ROWS - 1)"

text \<open>
  The fields of the class \<open>GameState\<close>. The optional callback \<open>onEvent\<close> is modelled
  by the field \<open>events\<close>, the sequence of events passed to \<open>emitEvent\<close> so far, oldest
  first; the callback only observes, it is given no way to change the state. The getters
  \<open>score\<close>, \<open>combo\<close> and \<open>backToBack\<close> read the fields of \<open>scoring\<close>.
\<close>

record GameState =
  board :: Board
  scoring :: ScoringState
  mode :: GameModeConfig
  randomizer :: BagRandomizer
  status :: GameStatus
  currentPiece :: "ActivePiece option"
  holdPiece :: "PieceType option"
  holdUsed :: bool
  nextQueue :: "PieceType list"
  level :: int
  totalLines :: int
  elapsedMs :: real
  gravityAccumulator :: real
  lockDelayTimer :: real
  lockDelayActive :: bool
  lockResetCount :: int
  lastWasTSpin :: bool
  lastWasTSpinMini :: bool
  lastMoveWasRotation :: bool
  events :: "GameEvent list"

definition emitEvent :: "GameEvent \<Rightarrow> GameState \<Rightarrow> GameState" where
  "emitEvent event s = s\<lparr>events := events s @ [event]\<rparr>"

text \<open>
  \<open>spawnPiece\<close> returns its boolean and the new state. \<open>None\<close> stands for \<open>undefined\<close>
  where \<open>shift()!\<close> and \<open>next()\<close> promise a piece type.
\<close>

definition spawnPiece :: "GameState \<Rightarrow> (bool \<times> GameState) option" where
  "spawnPiece s =
     (case nextQueue s of
        [] \<Rightarrow> None
      | t # queue \<Rightarrow>
          (case nextPiece (randomizer s) of
             None \<Rightarrow> None
           | Some (drawn, rnd) \<Rightarrow>
               let s1 = s\<lparr>nextQueue := queue @ [drawn], randomizer := rnd\<rparr>;
                   spawnRow = getSpawnRow t;
                   spawnCol = SPAWN_COL
               in if \<not> isValidPosition (board s1) t 0 spawnRow spawnCol then
                    Some (False,
                      emitEvent Ev_game_over
                        (s1\<lparr>status := GAME_OVER,
                            currentPiece := Some \<lparr>ptype = t, rotation = 0,
                                                  row = spawnRow, col = spawnCol\<rparr>\<rparr>))
                  else
                    Some (True,
                      s1\<lparr>currentPiece := Some \<lparr>ptype = t, rotation = 0,
                                                row = spawnRow, col = spawnCol\<rparr>,
                          holdUsed := False,
                          lockDelayActive := False,
                          lockDelayTimer := 0,
                          lockResetCount := 0,
                          gravityAccumulator := 0,
                          lastWasTSpin := False,
                          lastWasTSpinMini := False,
                          lastMoveWasRotation := False\<rparr>)))"

text \<open>The constructor: the loop that fills the next queue, then the first spawn.\<close>

fun fillQueue :: "nat \<Rightarrow> GameState \<Rightarrow> GameState option" where
  "fillQueue 0 s = Some s"
| "fillQueue (Suc n) s =
     (case nextPiece (randomizer s) of
        None \<Rightarrow> None
      | Some (drawn, rnd) \<Rightarrow>
          fillQueue n (s\<lparr>nextQueue := nextQueue s @ [drawn], randomizer := rnd\<rparr>))"

definition newGameState :: "GameModeConfig \<Rightarrow> (nat \<Rightarrow> real) \<Rightarrow> GameState option" where
  "newGameState m rnd =
     (case newBagRandomizer rnd of
        None \<Rightarrow> None
      | Some r \<Rightarrow>
          (case fillQueue NEXT_QUEUE_SIZE
                  \<lparr>board = createEmptyGrid, scoring = createScoringState, mode = m,
                   randomizer = r, status = PLAYING, currentPiece = None, holdPiece = None,
                   holdUsed = False, nextQueue = [], level = startLevel m, totalLines = 0,
                   elapsedMs = 0, gravityAccumulator = 0, lockDelayTimer = 0,
                   lockDelayActive = False, lockResetCount = 0, lastWasTSpin = False,
                   lastWasTSpinMini = False, lastMoveWasRotation = False, events = []\<rparr> of
             None \<Rightarrow> None
           | Some s \<Rightarrow> map_option snd (spawnPiece s)))"

definition startLockDelay :: "GameState \<Rightarrow> GameState" where
  "startLockDelay s =
     (if \<not> lockDelayActive s then s\<lparr>lockDelayActive := True, lockDelayTimer := 0\<rparr> else s)"

definition resetLockDelay :: "GameState \<Rightarrow> GameState" where
  "resetLockDelay s =
     (if lockDelayActive s \<and> lockResetCount s < MAX_LOCK_RESETS
      then s\<lparr>lockDelayTimer := 0, lockResetCount := lockResetCount s + 1\<rparr>
      else s)"

definition applyGravity :: "GameState \<Rightarrow> GameState" where
  "applyGravity s =
     (case currentPiece s of
        None \<Rightarrow> s
      | Some p \<Rightarrow>
          if isValidPosition (board s) (ptype p) (rotation p) (row p + 1) (col p)
          then s\<lparr>currentPiece := Some (p\<lparr>row := row p + 1\<rparr>), lastMoveWasRotation := False\<rparr>
          else startLockDelay s)"

definition lockCurrentPiece :: "GameState \<Rightarrow> GameState option" where
  "lockCurrentPiece s =
     (case currentPiece s of
        None \<Rightarrow> Some s
      | Some p \<Rightarrow>
          let s1 = emitEvent Ev_lock
                     (s\<lparr>board := lockPiece (board s) (ptype p) (rotation p) (row p) (col p)\<rparr>);
              ((cnt, rows), grid) = clearLines (board s1);
              s2 = s1\<lparr>board := grid\<rparr>;
              tSpin = (lastMoveWasRotation s2 \<and> lastWasTSpin s2);
              tSpinMini = (lastMoveWasRotation s2 \<and> lastWasTSpinMini s2);
              (scoreResult, sc) = processLineClear (scoring s2) (int cnt) (level s2) tSpin tSpinMini;
              s3 = s2\<lparr>scoring := sc\<rparr>
          in if cnt > 0 then
               let s4 = emitEvent (Ev_line_clear scoreResult rows cnt)
                          (s3\<lparr>totalLines := totalLines s3 + int cnt\<rparr>);
                   newLevel = calculateLevel (mode s4) (startLevel (mode s4)) (totalLines s4);
                   s5 = (if newLevel > level s4
                         then emitEvent (Ev_level_up newLevel) (s4\<lparr>level := newLevel\<rparr>)
                         else s4)
               in if isModeCompleted (mode s5) (level s5) (totalLines s5) (elapsedMs s5)
                  then Some (emitEvent Ev_completed (s5\<lparr>status := COMPLETED\<rparr>))
                  else map_option snd (spawnPiece s5)
             else map_option snd (spawnPiece s3))"

text \<open>
  The gravity loop of \<open>tick\<close>: \<open>while (gravityAccumulator >= gravityMs)\<close>. As a partial
  function, it is \<open>None\<close> where the loop does not end.
\<close>

partial_function (option) gravityLoop :: "real \<Rightarrow> GameState \<Rightarrow> GameState option" where
  "gravityLoop gravityMs s =
     (if gravityAccumulator s \<ge> gravityMs
      then gravityLoop gravityMs
             (applyGravity (s\<lparr>gravityAccumulator := gravityAccumulator s - gravityMs\<rparr>))
      else Some s)"

definition tick :: "real \<Rightarrow> GameState \<Rightarrow> GameState option" where
  "tick deltaMs s =
     (if status s \<noteq> PLAYING \<or> currentPiece s = None then Some s
      else
        let s1 = s\<lparr>elapsedMs := elapsedMs s + deltaMs\<rparr>
        in if isTimeExpired (mode s1) (elapsedMs s1) then
             let s2 = s1\<lparr>status := (if isCompletable (mode s1) then GAME_OVER else COMPLETED)\<rparr>
             in Some (emitEvent (if status s2 = COMPLETED then Ev_completed else Ev_game_over) s2)
           else
             let gravityMs = getGravityInterval (level s1)
             in if lockDelayActive s1 then
                  let s2 = s1\<lparr>lockDelayTimer := lockDelayTimer s1 + deltaMs\<rparr>
                  in if lockDelayTimer s2 \<ge> LOCK_DELAY_MS then lockCurrentPiece s2 else Some s2
                else
                  gravityLoop gravityMs
                    (s1\<lparr>gravityAccumulator := gravityAccumulator s1 + deltaMs\<rparr>))"

definition tryMove :: "int \<Rightarrow> int \<Rightarrow> GameState \<Rightarrow> bool \<times> GameState" where
  "tryMove rowDelta colDelta s =
     (case currentPiece s of
        None \<Rightarrow> (False, s)
      | Some p \<Rightarrow>
          if status s \<noteq> PLAYING then (False, s)
          else
            let newRow = row p + rowDelta;
                newCol = col p + colDelta
            in if isValidPosition (board s) (ptype p) (rotation p) newRow newCol then
                 let s1 = resetLockDelay
                            (s\<lparr>currentPiece := Some (p\<lparr>row := newRow, col := newCol\<rparr>),
                               lastMoveWasRotation := False\<rparr>);
                     s2 = (if \<not> isValidPosition (board s1) (ptype p) (rotation p) (newRow + 1) newCol
                           then startLockDelay s1
                           else if lockDelayActive s1 then s1\<lparr>lockDelayActive := False\<rparr>
                           else s1)
                 in (True, s2)
               else (False, s))"

definition moveLeft :: "GameState \<Rightarrow> bool \<times> GameState" where
  "moveLeft s = tryMove 0 (-1) s"

definition moveRight :: "GameState \<Rightarrow> bool \<times> GameState" where
  "moveRight s = tryMove 0 1 s"

definition softDrop :: "GameState \<Rightarrow> bool \<times> GameState" where
  "softDrop s =
     (case currentPiece s of
        None \<Rightarrow> (False, s)
      | Some p \<Rightarrow>
          if status s \<noteq> PLAYING then (False, s)
          else if isValidPosition (board s) (ptype p) (rotation p) (row p + 1) (col p) then
            let s1 = s\<lparr>currentPiece := Some (p\<lparr>row := row p + 1\<rparr>),
                       scoring := scoreSoftDrop (scoring s) 1,
                       lastMoveWasRotation := False\<rparr>;
                s2 = (if \<not> isValidPosition (board s1) (ptype p) (rotation p) (row p + 2) (col p)
                      then startLockDelay s1 else s1)
            in (True, s2)
          else (False, s))"

definition hardDrop :: "GameState \<Rightarrow> GameState option" where
  "hardDrop s =
     (case currentPiece s of
        None \<Rightarrow> Some s
      | Some p \<Rightarrow>
          if status s \<noteq> PLAYING then Some s
          else
            let ghostRow = getGhostRow (board s) (ptype p) (rotation p) (row p) (col p);
                dropDistance = ghostRow - row p;
                s1 = s\<lparr>scoring := scoreHardDrop (scoring s) dropDistance,
                       currentPiece := Some (p\<lparr>row := ghostRow\<rparr>),
                       lastMoveWasRotation := False\<rparr>
            in lockCurrentPiece (emitEvent (Ev_hard_drop dropDistance) s1))"

definition tryRotation :: "int \<Rightarrow> GameState \<Rightarrow> bool \<times> GameState" where
  "tryRotation direction s =
     (case currentPiece s of
        None \<Rightarrow> (False, s)
      | Some p \<Rightarrow>
          if status s \<noteq> PLAYING then (False, s)
          else
            case tryRotate (board s) (ptype p) (rotation p) (row p) (col p) direction of
              None \<Rightarrow> (False, s)
            | Some result \<Rightarrow>
                let newRow = row p + kickRow result;
                    newCol = col p + kickCol result;
                    s1 = resetLockDelay
                           (s\<lparr>currentPiece := Some (p\<lparr>rotation := newRotation result,
                                                        col := newCol, row := newRow\<rparr>),
                              lastMoveWasRotation := True,
                              lastWasTSpin := isTSpin result,
                              lastWasTSpinMini := isTSpinMini result\<rparr>);
                    s2 = (if \<not> isValidPosition (board s1) (ptype p) (newRotation result)
                                 (newRow + 1) newCol
                          then startLockDelay s1
                          else if lockDelayActive s1 then s1\<lparr>lockDelayActive := False\<rparr>
                          else s1)
                in (True, s2))"

definition rotateCW :: "GameState \<Rightarrow> bool \<times> GameState" where
  "rotateCW s = tryRotation 1 s"

definition rotateCCW :: "GameState \<Rightarrow> bool \<times> GameState" where
  "rotateCCW s = tryRotation (-1) s"

definition hold :: "GameState \<Rightarrow> (bool \<times> GameState) option" where
  "hold s =
     (case currentPiece s of
        None \<Rightarrow> Some (False, s)
      | Some p \<Rightarrow>
          if holdUsed s \<or> status s \<noteq> PLAYING then Some (False, s)
          else
            let currentType = ptype p;
                finish = (\<lambda>s'. Some (True,
                   emitEvent Ev_hold
                     (s'\<lparr>holdUsed := True,
                         lockDelayActive := False,
                         lockDelayTimer := 0,
                         lockResetCount := 0,
                         gravityAccumulator := 0,
                         lastMoveWasRotation := False,
                         lastWasTSpin := False,
                         lastWasTSpinMini := False\<rparr>)))
            in case holdPiece s of
                 Some holdType \<Rightarrow>
                   let s1 = s\<lparr>holdPiece := Some currentType\<rparr>;
                       spawnRow = getSpawnRow holdType
                   in if \<not> isValidPosition (board s1) holdType 0 spawnRow SPAWN_COL then
                        Some (False, emitEvent Ev_game_over (s1\<lparr>status := GAME_OVER\<rparr>))
                      else
                        finish (s1\<lparr>currentPiece := Some \<lparr>ptype = holdType, rotation = 0,
                                                           row = spawnRow, col = SPAWN_COL\<rparr>\<rparr>)
               | None \<Rightarrow>
                   (case spawnPiece (s\<lparr>holdPiece := Some currentType\<rparr>) of
                      None \<Rightarrow> None
                    | Some (spawned, s1) \<Rightarrow> finish s1))"

definition togglePause :: "GameState \<Rightarrow> GameState" where
  "togglePause s =
     (if status s = PLAYING then s\<lparr>status := PAUSED\<rparr>
      else if status s = PAUSED then s\<lparr>status := PLAYING\<rparr>
      else s)"

subsection \<open>Invariant, reachable states and example states\<close>

text \<open>
  The invariant of the game state. Its base part: the grid is 40 by 10, the queue holds
  five pieces and the randomizer is in order. The full invariant adds that a game that is
  playing or paused has an active piece in a valid position.
\<close>

definition rndOk :: "BagRandomizer \<Rightarrow> bool" where
  "rndOk r \<longleftrightarrow> (\<exists>drawn. bagInv drawn r)"

definition pieceFits :: "Board \<Rightarrow> ActivePiece \<Rightarrow> bool" where
  "pieceFits grid p \<longleftrightarrow> isValidPosition grid (ptype p) (rotation p) (row p) (col p)"

definition wf_base :: "GameState \<Rightarrow> bool" where
  "wf_base s \<longleftrightarrow> wf_grid (board s) \<and> length (nextQueue s) = 5 \<and> rndOk (randomizer s)"

definition wf_state :: "GameState \<Rightarrow> bool" where
  "wf_state s \<longleftrightarrow>
     wf_base s \<and>
     (status s = PLAYING \<or> status s = PAUSED \<longrightarrow>
        (\<exists>p. currentPiece s = Some p \<and> pieceFits (board s) p))"

text \<open>
  The states of a game: the state the constructor returns for a mode and a random source
  with outputs in \<open>[0, 1)\<close>, and every state that a public operation returns from such a
  state, with any argument.
\<close>

inductive reachable :: "GameState \<Rightarrow> bool" where
  construct: "\<forall>n. 0 \<le> rnd n \<and> rnd n < 1 \<Longrightarrow> newGameState m rnd = Some s \<Longrightarrow> reachable s"
| do_tick: "reachable s \<Longrightarrow> tick deltaMs s = Some s' \<Longrightarrow> reachable s'"
| do_moveLeft: "reachable s \<Longrightarrow> reachable (snd (moveLeft s))"
| do_moveRight: "reachable s \<Longrightarrow> reachable (snd (moveRight s))"
| do_softDrop: "reachable s \<Longrightarrow> reachable (snd (softDrop s))"
| do_hardDrop: "reachable s \<Longrightarrow> hardDrop s = Some s' \<Longrightarrow> reachable s'"
| do_rotateCW: "reachable s \<Longrightarrow> reachable (snd (rotateCW s))"
| do_rotateCCW: "reachable s \<Longrightarrow> reachable (snd (rotateCCW s))"
| do_hold: "reachable s \<Longrightarrow> hold s = Some (b, s') \<Longrightarrow> reachable s'"
| do_togglePause: "reachable s \<Longrightarrow> reachable (togglePause s)"

text \<open>The per-piece timers and flags that \<open>hold\<close> resets.\<close>

definition perPieceReset :: "GameState \<Rightarrow> bool" where
  "perPieceReset s \<longleftrightarrow>
     \<not> lockDelayActive s \<and> lockDelayTimer s = 0 \<and> lockResetCount s = 0 \<and>
     gravityAccumulator s = 0 \<and> \<not> lastMoveWasRotation s \<and>
     \<not> lastWasTSpin s \<and> \<not> lastWasTSpinMini s"

text \<open>
  An example game: Ultra mode with the random source that always answers one half. Both
  bags are then shuffled to I, J, O, Z, T, L, S; the queue takes the first five, the first
  spawn takes the I piece from the queue and refills it with L.
\<close>

definition startState :: GameState where
  "startState =
     \<lparr>board = createEmptyGrid, scoring = createScoringState, mode = ULTRA_MODE,
      randomizer = \<lparr>bag = [Piece_S],
                    nextBag = [Piece_I, Piece_J, Piece_O, Piece_Z, Piece_T, Piece_L, Piece_S],
                    rng = (\<lambda>_. 1 / 2), rngCalls = 12\<rparr>,
      status = PLAYING,
      currentPiece = Some \<lparr>ptype = Piece_I, rotation = 0, row = 18, col = 3\<rparr>,
      holdPiece = None, holdUsed = False,
      nextQueue = [Piece_J, Piece_O, Piece_Z, Piece_T, Piece_L],
      level = 1, totalLines = 0, elapsedMs = 0, gravityAccumulator = 0, lockDelayTimer = 0,
      lockDelayActive = False, lockResetCount = 0, lastWasTSpin = False,
      lastWasTSpinMini = False, lastMoveWasRotation = False, events = []\<rparr>"

text \<open>
  An example state for \<open>hold\<close>: column 6 is filled from row 19 down, a T piece is falling
  and an I piece is held. The I piece spawns on row 19, columns 3 to 6.
\<close>

definition blockedHoldState :: GameState where
  "blockedHoldState = startState
     \<lparr>board := replicate 19 (replicate 10 None)
                 @ replicate 21 ((replicate 10 None)[6 := Some Piece_I]),
      currentPiece := Some \<lparr>ptype = Piece_T, rotation = 0, row = 19, col = 3\<rparr>,
      holdPiece := Some Piece_I\<rparr>"

section \<open>Properties of the game state\<close>

text \<open>
  Claim C5. In a state whose status is \<open>GAME_OVER\<close> or \<open>COMPLETED\<close>, each of the nine
  operations returns the state as it is, every field included, and the operations with a
  boolean result return false.
\<close>

theorem terminal_state_frozen:
  assumes "status s = GAME_OVER \<or> status s = COMPLETED"
  shows "tick deltaMs s = Some s
       \<and> moveLeft s = (False, s) \<and> moveRight s = (False, s)
       \<and> softDrop s = (False, s) \<and> hardDrop s = Some s
       \<and> rotateCW s = (False, s) \<and> rotateCCW s = (False, s)
       \<and> hold s = Some (False, s) \<and> togglePause s = s"
proof -
  have st: "status s \<noteq> PLAYING" "status s \<noteq> PAUSED" using assms by auto
  have "tick deltaMs s = Some s" using st by (simp add: tick_def)
  moreover have "moveLeft s = (False, s)" "moveRight s = (False, s)"
    using st by (simp_all add: moveLeft_def moveRight_def tryMove_def split: option.split)
  moreover have "softDrop s = (False, s)"
    using st by (simp add: softDrop_def split: option.split)
  moreover have "hardDrop s = Some s"
    using st by (simp add: hardDrop_def split: option.split)
  moreover have "rotateCW s = (False, s)" "rotateCCW s = (False, s)"
    using st by (simp_all add: rotateCW_def rotateCCW_def tryRotation_def split: option.split)
  moreover have "hold s = Some (False, s)"
    using st by (simp add: hold_def split: option.split)
  moreover have "togglePause s = s"
    using st by (simp add: togglePause_def)
  ultimately show ?thesis by blast
qed

lemma createEmptyGrid_valid_I_spawn: "isValidPosition createEmptyGrid Piece_I 0 18 3"
  by (simp add: isValidPosition_def getAbsoluteCells_def getCells_def createEmptyGrid_def
        board_consts)

lemma newGameState_example: "newGameState ULTRA_MODE (\<lambda>_. 1 / 2) = Some startState"
  using createEmptyGrid_valid_I_spawn
  by (simp add: newGameState_def newBagRandomizer_half NEXT_QUEUE_SIZE_def numeral_eq_Suc
        nextPiece_def spawnPiece_def getSpawnRow_def SPAWN_COL_def BOARD_BUFFER_ROWS_def
        startState_def ULTRA_MODE_def)

theorem terminal_state_frozen_witness:
  "(status (startState\<lparr>status := GAME_OVER\<rparr>) = GAME_OVER
      \<or> status (startState\<lparr>status := GAME_OVER\<rparr>) = COMPLETED)
   \<and> tick 16 (startState\<lparr>status := GAME_OVER\<rparr>) = Some (startState\<lparr>status := GAME_OVER\<rparr>)
   \<and> moveLeft (startState\<lparr>status := GAME_OVER\<rparr>) = (False, startState\<lparr>status := GAME_OVER\<rparr>)
   \<and> hardDrop (startState\<lparr>status := GAME_OVER\<rparr>) = Some (startState\<lparr>status := GAME_OVER\<rparr>)
   \<and> hold (startState\<lparr>status := GAME_OVER\<rparr>) = Some (False, startState\<lparr>status := GAME_OVER\<rparr>)
   \<and> togglePause (startState\<lparr>status := GAME_OVER\<rparr>) = startState\<lparr>status := GAME_OVER\<rparr>"
  using terminal_state_frozen[of "startState\<lparr>status := GAME_OVER\<rparr>" 16] by simp

lemma nextPiece_rndOk:
  assumes "rndOk r"
  shows "\<exists>p r'. nextPiece r = Some (p, r') \<and> rndOk r'"
  using assms nextPiece_inv unfolding rndOk_def by blast

lemma spawnPiece_wf:
  assumes "wf_base s"
  shows "\<exists>b s'. spawnPiece s = Some (b, s') \<and> wf_state s'"
proof -
  from assms have g: "wf_grid (board s)" and q: "length (nextQueue s) = 5"
    and r: "rndOk (randomizer s)"
    by (auto simp: wf_base_def)
  obtain t queue where tq: "nextQueue s = t # queue" "length queue = 4"
    using q by (cases "nextQueue s") auto
  obtain drawn rnd where np: "nextPiece (randomizer s) = Some (drawn, rnd)" "rndOk rnd"
    using nextPiece_rndOk[OF r] by blast
  show ?thesis
  proof (cases "isValidPosition (board s) t 0 (getSpawnRow t) SPAWN_COL")
    case True
    then show ?thesis
      using g tq np
      by (auto simp: spawnPiece_def wf_state_def wf_base_def pieceFits_def Let_def)
  next
    case False
    then show ?thesis
      using g tq np
      by (auto simp: spawnPiece_def wf_state_def wf_base_def emitEvent_def Let_def)
  qed
qed

lemma clearLines_wf:
  assumes "wf_grid grid"
  shows "wf_grid (snd (clearLines grid))"
  using clearLines_result[OF assms] by (auto split: prod.splits)

lemma lockPiece_wf: "wf_grid grid \<Longrightarrow> wf_grid (lockPiece grid t r y x)"
  unfolding lockPiece_def using fold_lockCell by blast

lemma lockCurrentPiece_wf:
  assumes "wf_state s"
  shows "\<exists>s'. lockCurrentPiece s = Some s' \<and> wf_state s'"
proof (cases "currentPiece s")
  case None
  then show ?thesis using assms by (simp add: lockCurrentPiece_def)
next
  case (Some p)
  define s1 where "s1 = emitEvent Ev_lock
      (s\<lparr>board := lockPiece (board s) (ptype p) (rotation p) (row p) (col p)\<rparr>)"
  obtain cnt rows grid where cl: "clearLines (board s1) = ((cnt, rows), grid)"
    by (metis surj_pair)
  define s2 where "s2 = s1\<lparr>board := grid\<rparr>"
  obtain scoreResult sc where pl: "processLineClear (scoring s2) (int cnt) (level s2)
      (lastMoveWasRotation s2 \<and> lastWasTSpin s2)
      (lastMoveWasRotation s2 \<and> lastWasTSpinMini s2) = (scoreResult, sc)"
    by (metis surj_pair)
  define s3 where "s3 = s2\<lparr>scoring := sc\<rparr>"
  define s4 where "s4 = emitEvent (Ev_line_clear scoreResult rows cnt)
      (s3\<lparr>totalLines := totalLines s3 + int cnt\<rparr>)"
  define newLevel where "newLevel = calculateLevel (mode s4) (startLevel (mode s4)) (totalLines s4)"
  define s5 where "s5 = (if newLevel > level s4
      then emitEvent (Ev_level_up newLevel) (s4\<lparr>level := newLevel\<rparr>) else s4)"
  have base: "wf_base s" using assms by (simp add: wf_state_def)
  have g1: "wf_grid (board s1)"
    using base by (simp add: s1_def emitEvent_def wf_base_def lockPiece_wf)
  have g2: "wf_grid grid" using clearLines_wf[OF g1] cl by simp
  have b3: "wf_base s3"
    using base g2 by (simp add: s3_def s2_def s1_def emitEvent_def wf_base_def)
  have b5: "wf_base s5"
    using b3 by (simp add: s5_def s4_def emitEvent_def wf_base_def)
  have unfold: "lockCurrentPiece s =
      (if cnt > 0 then
         if isModeCompleted (mode s5) (level s5) (totalLines s5) (elapsedMs s5)
         then Some (emitEvent Ev_completed (s5\<lparr>status := COMPLETED\<rparr>))
         else map_option snd (spawnPiece s5)
       else map_option snd (spawnPiece s3))"
    unfolding lockCurrentPiece_def Some option.case Let_def
      s1_def[symmetric] cl prod.case s2_def[symmetric] pl s3_def[symmetric]
      s4_def[symmetric] newLevel_def[symmetric] s5_def[symmetric]
    by (rule refl)
  show ?thesis
  proof (cases "cnt > 0")
    case True
    show ?thesis
    proof (cases "isModeCompleted (mode s5) (level s5) (totalLines s5) (elapsedMs s5)")
      case True
      have "wf_state (emitEvent Ev_completed (s5\<lparr>status := COMPLETED\<rparr>))"
        using b5 by (simp add: wf_state_def wf_base_def emitEvent_def)
      then show ?thesis using \<open>cnt > 0\<close> True unfold by simp
    next
      case False
      obtain b s' where "spawnPiece s5 = Some (b, s')" "wf_state s'"
        using spawnPiece_wf[OF b5] by blast
      then show ?thesis using \<open>cnt > 0\<close> False unfold by simp
    qed
  next
    case False
    obtain b s' where "spawnPiece s3 = Some (b, s')" "wf_state s'"
      using spawnPiece_wf[OF b3] by blast
    then show ?thesis using False unfold by simp
  qed
qed

lemma startLockDelay_wf: "wf_state s \<Longrightarrow> wf_state (startLockDelay s)"
  by (simp add: startLockDelay_def wf_state_def wf_base_def)

lemma resetLockDelay_wf: "wf_state s \<Longrightarrow> wf_state (resetLockDelay s)"
  by (simp add: resetLockDelay_def wf_state_def wf_base_def)

lemma lockDelayActive_off_wf: "wf_state s \<Longrightarrow> wf_state (s\<lparr>lockDelayActive := b\<rparr>)"
  by (simp add: wf_state_def wf_base_def)

lemma applyGravity_wf:
  assumes "wf_state s"
  shows "wf_state (applyGravity s)"
proof (cases "currentPiece s")
  case None
  then show ?thesis using assms by (simp add: applyGravity_def)
next
  case (Some p)
  show ?thesis
  proof (cases "isValidPosition (board s) (ptype p) (rotation p) (row p + 1) (col p)")
    case True
    then show ?thesis
      using assms Some by (simp add: applyGravity_def wf_state_def wf_base_def pieceFits_def)
  next
    case False
    then show ?thesis
      using startLockDelay_wf[OF assms] Some by (simp add: applyGravity_def)
  qed
qed

lemma applyGravity_accumulator [simp]:
  "gravityAccumulator (applyGravity s) = gravityAccumulator s"
  by (simp add: applyGravity_def startLockDelay_def split: option.split)

text \<open>The gravity loop ends for every positive interval, and keeps the invariant.\<close>

lemma gravityLoop_wf:
  assumes "0 < g" "wf_state s"
  shows "\<exists>s'. gravityLoop g s = Some s' \<and> wf_state s'"
  using assms(2)
proof (induction "nat \<lfloor>gravityAccumulator s / g\<rfloor>" arbitrary: s rule: less_induct)
  case less
  show ?case
  proof (cases "gravityAccumulator s \<ge> g")
    case False
    then show ?thesis using less.prems by (subst gravityLoop.simps) simp
  next
    case True
    let ?s1 = "applyGravity (s\<lparr>gravityAccumulator := gravityAccumulator s - g\<rparr>)"
    have wf1: "wf_state ?s1"
      using less.prems by (intro applyGravity_wf) (simp add: wf_state_def wf_base_def)
    have "(gravityAccumulator s - g) / g = gravityAccumulator s / g - 1"
      using assms(1) by (simp add: field_simps)
    then have fl: "\<lfloor>(gravityAccumulator s - g) / g\<rfloor> = \<lfloor>gravityAccumulator s / g\<rfloor> - 1"
      by simp
    have "1 \<le> gravityAccumulator s / g" using True assms(1) by (simp add: field_simps)
    then have "1 \<le> \<lfloor>gravityAccumulator s / g\<rfloor>" by (simp add: le_floor_iff)
    then have "nat \<lfloor>gravityAccumulator ?s1 / g\<rfloor> < nat \<lfloor>gravityAccumulator s / g\<rfloor>"
      using fl by simp
    from less.hyps[OF this wf1] obtain s' where "gravityLoop g ?s1 = Some s'" "wf_state s'"
      by blast
    then show ?thesis using True by (subst gravityLoop.simps) simp
  qed
qed

lemma getGravityInterval_pos: "0 < getGravityInterval lvl"
  by (simp add: getGravityInterval_def Let_def max_def)

lemma tick_wf:
  assumes "wf_state s"
  shows "\<exists>s'. tick deltaMs s = Some s' \<and> wf_state s'"
proof (cases "status s \<noteq> PLAYING \<or> currentPiece s = None")
  case True
  then show ?thesis using assms by (auto simp: tick_def)
next
  case False
  define s1 where "s1 = s\<lparr>elapsedMs := elapsedMs s + deltaMs\<rparr>"
  have wf1: "wf_state s1" using assms by (simp add: s1_def wf_state_def wf_base_def)
  show ?thesis
  proof (cases "isTimeExpired (mode s1) (elapsedMs s1)")
    case True
    have "wf_state (emitEvent e (s1\<lparr>status := (if isCompletable (mode s1) then GAME_OVER else COMPLETED)\<rparr>))" for e
      using wf1 by (simp add: wf_state_def wf_base_def emitEvent_def)
    then show ?thesis
      using False True unfolding tick_def s1_def[symmetric] Let_def by auto
  next
    case notExpired: False
    show ?thesis
    proof (cases "lockDelayActive s1")
      case True
      define s2 where "s2 = s1\<lparr>lockDelayTimer := lockDelayTimer s1 + deltaMs\<rparr>"
      have wf2: "wf_state s2" using wf1 by (simp add: s2_def wf_state_def wf_base_def)
      have "\<exists>s'. (if lockDelayTimer s2 \<ge> LOCK_DELAY_MS then lockCurrentPiece s2 else Some s2) = Some s'
          \<and> wf_state s'"
        using lockCurrentPiece_wf[OF wf2] wf2 by simp
      then show ?thesis
        using False notExpired True unfolding tick_def s1_def[symmetric] Let_def s2_def[symmetric]
        by auto
    next
      case inactive: False
      have wf2: "wf_state (s1\<lparr>gravityAccumulator := gravityAccumulator s1 + deltaMs\<rparr>)"
        using wf1 by (simp add: wf_state_def wf_base_def)
      from gravityLoop_wf[OF getGravityInterval_pos wf2]
      show ?thesis
        using False notExpired inactive unfolding tick_def s1_def[symmetric] Let_def
        by auto
    qed
  qed
qed

lemma tryMove_wf:
  assumes "wf_state s"
  shows "wf_state (snd (tryMove rowDelta colDelta s))"
proof (cases "currentPiece s")
  case None
  then show ?thesis using assms by (simp add: tryMove_def)
next
  case (Some p)
  show ?thesis
  proof (cases "status s = PLAYING \<and>
      isValidPosition (board s) (ptype p) (rotation p) (row p + rowDelta) (col p + colDelta)")
    case False
    then show ?thesis using assms Some by (auto simp: tryMove_def Let_def)
  next
    case True
    define s0 where "s0 = s\<lparr>currentPiece := Some (p\<lparr>row := row p + rowDelta, col := col p + colDelta\<rparr>),
        lastMoveWasRotation := False\<rparr>"
    have "wf_state s0"
      using assms True by (simp add: s0_def wf_state_def wf_base_def pieceFits_def)
    then have wf1: "wf_state (resetLockDelay s0)" by (rule resetLockDelay_wf)
    have "snd (tryMove rowDelta colDelta s) =
        (if \<not> isValidPosition (board (resetLockDelay s0)) (ptype p) (rotation p)
               (row p + rowDelta + 1) (col p + colDelta)
         then startLockDelay (resetLockDelay s0)
         else if lockDelayActive (resetLockDelay s0)
              then (resetLockDelay s0)\<lparr>lockDelayActive := False\<rparr>
              else resetLockDelay s0)"
      using True Some by (simp add: tryMove_def Let_def s0_def)
    then show ?thesis
      using wf1 startLockDelay_wf[OF wf1] lockDelayActive_off_wf[OF wf1, of False] by simp
  qed
qed

lemma softDrop_wf:
  assumes "wf_state s"
  shows "wf_state (snd (softDrop s))"
proof (cases "currentPiece s")
  case None
  then show ?thesis using assms by (simp add: softDrop_def)
next
  case (Some p)
  show ?thesis
  proof (cases "status s = PLAYING \<and>
      isValidPosition (board s) (ptype p) (rotation p) (row p + 1) (col p)")
    case False
    then show ?thesis using assms Some by (auto simp: softDrop_def Let_def)
  next
    case True
    define s1 where "s1 = s\<lparr>currentPiece := Some (p\<lparr>row := row p + 1\<rparr>),
        scoring := scoreSoftDrop (scoring s) 1, lastMoveWasRotation := False\<rparr>"
    have wf1: "wf_state s1"
      using assms True by (simp add: s1_def wf_state_def wf_base_def pieceFits_def)
    have "snd (softDrop s) =
        (if \<not> isValidPosition (board s1) (ptype p) (rotation p) (row p + 2) (col p)
         then startLockDelay s1 else s1)"
      using True Some by (simp add: softDrop_def Let_def s1_def)
    then show ?thesis using wf1 startLockDelay_wf[OF wf1] by simp
  qed
qed

lemma getGhostRowFrom_valid:
  "isValidPosition grid t r y x \<Longrightarrow> isValidPosition grid t r (getGhostRowFrom grid t r y x) x"
proof (induction grid t r y x rule: getGhostRowFrom.induct)
  case (1 grid t r y x)
  then show ?case by (subst getGhostRowFrom.simps) simp
qed

lemma hardDrop_wf:
  assumes "wf_state s"
  shows "\<exists>s'. hardDrop s = Some s' \<and> wf_state s'"
proof (cases "currentPiece s")
  case None
  then show ?thesis using assms by (simp add: hardDrop_def)
next
  case (Some p)
  show ?thesis
  proof (cases "status s = PLAYING")
    case False
    then show ?thesis using assms Some by (simp add: hardDrop_def)
  next
    case True
    define ghostRow where "ghostRow = getGhostRow (board s) (ptype p) (rotation p) (row p) (col p)"
    define s2 where "s2 = emitEvent (Ev_hard_drop (ghostRow - row p))
        (s\<lparr>scoring := scoreHardDrop (scoring s) (ghostRow - row p),
           currentPiece := Some (p\<lparr>row := ghostRow\<rparr>),
           lastMoveWasRotation := False\<rparr>)"
    have "pieceFits (board s) p" using assms True Some by (simp add: wf_state_def)
    then have "isValidPosition (board s) (ptype p) (rotation p) ghostRow (col p)"
      unfolding pieceFits_def ghostRow_def getGhostRow_def by (rule getGhostRowFrom_valid)
    then have wf2: "wf_state s2"
      using assms by (simp add: s2_def emitEvent_def wf_state_def wf_base_def pieceFits_def)
    have "hardDrop s = lockCurrentPiece s2"
      using True Some by (simp add: hardDrop_def Let_def ghostRow_def s2_def)
    then show ?thesis using lockCurrentPiece_wf[OF wf2] by simp
  qed
qed

lemma tryKicks_valid:
  assumes "tryKicks grid t toState y x kicks = Some res"
  shows "isValidPosition grid t toState (y + kickRow res) (x + kickCol res)
       \<and> newRotation res = toState"
  using assms
proof (induction kicks)
  case Nil
  then show ?case by simp
next
  case (Cons kick kicks)
  obtain colOff rowOff where k: "kick = (colOff, rowOff)" by (cases kick)
  show ?case
  proof (cases "isValidPosition grid t toState (y - rowOff) (x + colOff)")
    case True
    then show ?thesis using Cons.prems unfolding k
      by (auto simp: Let_def split: prod.splits)
  next
    case False
    then show ?thesis using Cons unfolding k by (simp add: Let_def)
  qed
qed

lemma tryRotate_valid:
  assumes "tryRotate grid t r y x direction = Some res"
  shows "isValidPosition grid t (newRotation res) (y + kickRow res) (x + kickCol res)"
proof -
  from assms obtain kicks toState where
    "tryKicks grid t toState y x kicks = Some res"
    unfolding tryRotate_def Let_def by (auto split: if_splits option.splits)
  from tryKicks_valid[OF this] show ?thesis by simp
qed

lemma tryRotation_wf:
  assumes "wf_state s"
  shows "wf_state (snd (tryRotation direction s))"
proof (cases "currentPiece s")
  case None
  then show ?thesis using assms by (simp add: tryRotation_def)
next
  case (Some p)
  show ?thesis
  proof (cases "status s = PLAYING")
    case False
    then show ?thesis using assms Some by (simp add: tryRotation_def)
  next
    case True
    show ?thesis
    proof (cases "tryRotate (board s) (ptype p) (rotation p) (row p) (col p) direction")
      case None
      then show ?thesis using assms Some True by (simp add: tryRotation_def)
    next
      case (Some result)
      define s0 where "s0 = s\<lparr>currentPiece := Some (p\<lparr>rotation := newRotation result,
            col := col p + kickCol result, row := row p + kickRow result\<rparr>),
          lastMoveWasRotation := True,
          lastWasTSpin := isTSpin result,
          lastWasTSpinMini := isTSpinMini result\<rparr>"
      have "wf_state s0"
        using assms tryRotate_valid[OF Some]
        by (simp add: s0_def wf_state_def wf_base_def pieceFits_def)
      then have wf1: "wf_state (resetLockDelay s0)" by (rule resetLockDelay_wf)
      have "snd (tryRotation direction s) =
          (if \<not> isValidPosition (board (resetLockDelay s0)) (ptype p) (newRotation result)
                 (row p + kickRow result + 1) (col p + kickCol result)
           then startLockDelay (resetLockDelay s0)
           else if lockDelayActive (resetLockDelay s0)
                then (resetLockDelay s0)\<lparr>lockDelayActive := False\<rparr>
                else resetLockDelay s0)"
        using True Some \<open>currentPiece s = Some p\<close>
        by (simp add: tryRotation_def Let_def s0_def)
      then show ?thesis
        using wf1 startLockDelay_wf[OF wf1] lockDelayActive_off_wf[OF wf1, of False] by simp
    qed
  qed
qed

lemma togglePause_wf: "wf_state s \<Longrightarrow> wf_state (togglePause s)"
  by (auto simp: togglePause_def wf_state_def wf_base_def)

lemma hold_finish_wf:
  assumes "wf_state s"
  shows "wf_state (emitEvent Ev_hold
           (s\<lparr>holdUsed := True, lockDelayActive := False, lockDelayTimer := 0,
              lockResetCount := 0, gravityAccumulator := 0, lastMoveWasRotation := False,
              lastWasTSpin := False, lastWasTSpinMini := False\<rparr>))"
  using assms by (simp add: wf_state_def wf_base_def emitEvent_def)

lemma hold_wf:
  assumes "wf_state s"
  shows "\<exists>b s'. hold s = Some (b, s') \<and> wf_state s'"
proof (cases "currentPiece s")
  case None
  then show ?thesis using assms by (auto simp: hold_def)
next
  case (Some p)
  show ?thesis
  proof (cases "holdUsed s \<or> status s \<noteq> PLAYING")
    case True
    then show ?thesis using assms Some by (auto simp: hold_def)
  next
    case False
    show ?thesis
    proof (cases "holdPiece s")
      case None
      have "wf_base (s\<lparr>holdPiece := Some (ptype p)\<rparr>)"
        using assms by (simp add: wf_state_def wf_base_def)
      from spawnPiece_wf[OF this] obtain b s1 where
        sp: "spawnPiece (s\<lparr>holdPiece := Some (ptype p)\<rparr>) = Some (b, s1)" "wf_state s1"
        by blast
      show ?thesis
        using False Some None sp(1) hold_finish_wf[OF sp(2)]
        unfolding hold_def Let_def by auto
    next
      case (Some holdType)
      define s1 where "s1 = s\<lparr>holdPiece := Some (ptype p)\<rparr>"
      have wf1: "wf_state s1" using assms by (simp add: s1_def wf_state_def wf_base_def)
      show ?thesis
      proof (cases "isValidPosition (board s1) holdType 0 (getSpawnRow holdType) SPAWN_COL")
        case True
        have "wf_state (s1\<lparr>currentPiece := Some \<lparr>ptype = holdType, rotation = 0,
            row = getSpawnRow holdType, col = SPAWN_COL\<rparr>\<rparr>)"
          using wf1 True by (simp add: wf_state_def wf_base_def pieceFits_def)
        from hold_finish_wf[OF this] show ?thesis
          using False Some \<open>currentPiece s = Some p\<close> True
          by (auto simp: hold_def Let_def s1_def)
      next
        case blocked: False
        have "wf_state (emitEvent Ev_game_over (s1\<lparr>status := GAME_OVER\<rparr>))"
          using wf1 by (simp add: wf_state_def wf_base_def emitEvent_def)
        then show ?thesis
          using False Some \<open>currentPiece s = Some p\<close> blocked
          by (auto simp: hold_def Let_def s1_def)
      qed
    qed
  qed
qed

lemma fillQueue_wf:
  assumes "rndOk (randomizer s)" "wf_grid (board s)"
  shows "\<exists>s'. fillQueue n s = Some s' \<and> rndOk (randomizer s') \<and> wf_grid (board s')
           \<and> length (nextQueue s') = length (nextQueue s) + n"
  using assms
proof (induction n arbitrary: s)
  case 0
  then show ?case by simp
next
  case (Suc n)
  obtain drawn rnd where np: "nextPiece (randomizer s) = Some (drawn, rnd)" "rndOk rnd"
    using nextPiece_rndOk[OF Suc.prems(1)] by blast
  let ?s1 = "s\<lparr>nextQueue := nextQueue s @ [drawn], randomizer := rnd\<rparr>"
  have "rndOk (randomizer ?s1)" "wf_grid (board ?s1)" using np(2) Suc.prems(2) by simp_all
  from Suc.IH[OF this] show ?case using np(1) by auto
qed

lemma newGameState_wf:
  assumes "rng_ok rnd"
  shows "\<exists>s. newGameState m rnd = Some s \<and> wf_state s"
proof -
  obtain r where r: "newBagRandomizer rnd = Some r" "rndOk r"
    using newBagRandomizer_inv[OF assms] unfolding rndOk_def by blast
  let ?s0 = "\<lparr>board = createEmptyGrid, scoring = createScoringState, mode = m,
      randomizer = r, status = PLAYING, currentPiece = None, holdPiece = None,
      holdUsed = False, nextQueue = [], level = startLevel m, totalLines = 0,
      elapsedMs = 0, gravityAccumulator = 0, lockDelayTimer = 0,
      lockDelayActive = False, lockResetCount = 0, lastWasTSpin = False,
      lastWasTSpinMini = False, lastMoveWasRotation = False, events = []\<rparr>"
  have "rndOk (randomizer ?s0)" "wf_grid (board ?s0)"
    using r(2) wf_grid_createEmptyGrid by simp_all
  from fillQueue_wf[OF this, of NEXT_QUEUE_SIZE] obtain s1 where
    s1: "fillQueue NEXT_QUEUE_SIZE ?s0 = Some s1" "wf_base s1"
    unfolding wf_base_def NEXT_QUEUE_SIZE_def by auto
  obtain b s2 where "spawnPiece s1 = Some (b, s2)" "wf_state s2"
    using spawnPiece_wf[OF s1(2)] by blast
  then show ?thesis using r(1) s1(1) by (simp add: newGameState_def)
qed

lemma reachable_wf: "reachable s \<Longrightarrow> wf_state s"
proof (induction rule: reachable.induct)
  case (construct rnd m s)
  then show ?case using newGameState_wf[of rnd m] by (auto simp: rng_ok_def)
next
  case (do_tick s deltaMs s')
  then show ?case using tick_wf[of s deltaMs] by auto
next
  case (do_moveLeft s)
  then show ?case by (simp add: moveLeft_def tryMove_wf)
next
  case (do_moveRight s)
  then show ?case by (simp add: moveRight_def tryMove_wf)
next
  case (do_softDrop s)
  then show ?case by (simp add: softDrop_wf)
next
  case (do_hardDrop s s')
  then show ?case using hardDrop_wf[of s] by auto
next
  case (do_rotateCW s)
  then show ?case by (simp add: rotateCW_def tryRotation_wf)
next
  case (do_rotateCCW s)
  then show ?case by (simp add: rotateCCW_def tryRotation_wf)
next
  case (do_hold s b s')
  then show ?case using hold_wf[of s] by auto
next
  case (do_togglePause s)
  then show ?case by (simp add: togglePause_wf)
qed

text \<open>On a reachable state no operation meets \<open>undefined\<close> or runs forever.\<close>

lemma reachable_progress:
  assumes "reachable s"
  shows "(\<exists>s'. tick deltaMs s = Some s') \<and> (\<exists>s'. hardDrop s = Some s')
       \<and> (\<exists>b s'. hold s = Some (b, s'))"
  using reachable_wf[OF assms] tick_wf[of s deltaMs] hardDrop_wf[of s] hold_wf[of s] by blast

lemma getAbsoluteCells_length: "length (getAbsoluteCells t r y x) = 4"
  using getCells_cases[of t r] unfolding getAbsoluteCells_def by (cases t) auto

text \<open>
  Claim C9. In every state reachable from construction through the public operations,
  when the status is \<open>PLAYING\<close> there is a current piece, it has four absolute cells, and
  each of them lies in the 40 by 10 grid on an empty cell of the board.
\<close>

theorem playing_piece_valid:
  assumes "reachable s" and "status s = PLAYING"
  shows "\<exists>p. currentPiece s = Some p
       \<and> length (getAbsoluteCells (ptype p) (rotation p) (row p) (col p)) = 4
       \<and> (\<forall>(r, c) \<in> set (getAbsoluteCells (ptype p) (rotation p) (row p) (col p)).
             0 \<le> r \<and> r < 40 \<and> 0 \<le> c \<and> c < 10 \<and> board s ! nat r ! nat c = None)"
proof -
  from reachable_wf[OF assms(1)] assms(2) obtain p where
    p: "currentPiece s = Some p" "pieceFits (board s) p"
    unfolding wf_state_def by blast
  from p(2) have "\<forall>(r, c) \<in> set (getAbsoluteCells (ptype p) (rotation p) (row p) (col p)).
      0 \<le> r \<and> r < 40 \<and> 0 \<le> c \<and> c < 10 \<and> board s ! nat r ! nat c = None"
    unfolding pieceFits_def isValidPosition_iff .
  with p(1) getAbsoluteCells_length show ?thesis by blast
qed

lemma reachable_startState: "reachable startState"
proof -
  have "\<forall>n. 0 \<le> (\<lambda>_. 1 / 2 :: real) n \<and> (\<lambda>_. 1 / 2 :: real) n < 1" by simp
  then show ?thesis using newGameState_example by (rule reachable.construct)
qed

theorem playing_piece_valid_witness:
  "reachable startState \<and> status startState = PLAYING
   \<and> currentPiece startState = Some \<lparr>ptype = Piece_I, rotation = 0, row = 18, col = 3\<rparr>
   \<and> getAbsoluteCells Piece_I 0 18 3 = [(19, 3), (19, 4), (19, 5), (19, 6)]
   \<and> list_all (\<lambda>(r, c). 0 \<le> r \<and> r < 40 \<and> 0 \<le> c \<and> c < 10
                       \<and> board startState ! nat r ! nat c = None)
         (getAbsoluteCells Piece_I 0 18 3)"
proof -
  have st: "status startState = PLAYING" by (simp add: startState_def)
  have cp: "currentPiece startState = Some \<lparr>ptype = Piece_I, rotation = 0, row = 18, col = 3\<rparr>"
    by (simp add: startState_def)
  have cells: "getAbsoluteCells Piece_I 0 18 3 = [(19, 3), (19, 4), (19, 5), (19, 6)]"
    by (simp add: getAbsoluteCells_def getCells_def)
  from playing_piece_valid[OF reachable_startState st] cp
  have "\<forall>(r, c) \<in> set (getAbsoluteCells Piece_I 0 18 3).
         0 \<le> r \<and> r < 40 \<and> 0 \<le> c \<and> c < 10 \<and> board startState ! nat r ! nat c = None"
    by simp
  then have "list_all (\<lambda>(r, c). 0 \<le> r \<and> r < 40 \<and> 0 \<le> c \<and> c < 10
                       \<and> board startState ! nat r ! nat c = None)
         (getAbsoluteCells Piece_I 0 18 3)"
    unfolding list_all_iff .
  with reachable_startState st cp cells show ?thesis by blast
qed

lemma spawnPiece_elapsedMs:
  "spawnPiece s = Some (b, s') \<Longrightarrow> elapsedMs s' = elapsedMs s"
  by (auto simp: spawnPiece_def Let_def emitEvent_def split: list.splits option.splits if_splits)

lemma lockCurrentPiece_elapsedMs:
  assumes "lockCurrentPiece s = Some s'"
  shows "elapsedMs s' = elapsedMs s"
proof (cases "currentPiece s")
  case None
  then show ?thesis using assms by (simp add: lockCurrentPiece_def)
next
  case (Some p)
  show ?thesis
    using assms unfolding lockCurrentPiece_def Some option.case Let_def
    by (auto simp: emitEvent_def split: prod.splits if_splits dest!: spawnPiece_elapsedMs)
qed

lemma applyGravity_elapsedMs [simp]: "elapsedMs (applyGravity s) = elapsedMs s"
  by (simp add: applyGravity_def startLockDelay_def split: option.split)

lemma gravityLoop_elapsedMs:
  assumes "0 < g" "gravityLoop g s = Some s'"
  shows "elapsedMs s' = elapsedMs s"
  using assms(2)
proof (induction "nat \<lfloor>gravityAccumulator s / g\<rfloor>" arbitrary: s rule: less_induct)
  case less
  show ?case
  proof (cases "gravityAccumulator s \<ge> g")
    case False
    then show ?thesis using less.prems by (subst (asm) gravityLoop.simps) simp
  next
    case True
    let ?s1 = "applyGravity (s\<lparr>gravityAccumulator := gravityAccumulator s - g\<rparr>)"
    have "(gravityAccumulator s - g) / g = gravityAccumulator s / g - 1"
      using assms(1) by (simp add: field_simps)
    then have fl: "\<lfloor>(gravityAccumulator s - g) / g\<rfloor> = \<lfloor>gravityAccumulator s / g\<rfloor> - 1"
      by simp
    have "1 \<le> gravityAccumulator s / g" using True assms(1) by (simp add: field_simps)
    then have "1 \<le> \<lfloor>gravityAccumulator s / g\<rfloor>" by (simp add: le_floor_iff)
    then have m: "nat \<lfloor>gravityAccumulator ?s1 / g\<rfloor> < nat \<lfloor>gravityAccumulator s / g\<rfloor>"
      using fl by simp
    have "gravityLoop g ?s1 = Some s'"
      using less.prems True by (subst (asm) gravityLoop.simps) simp
    from less.hyps[OF m this] show ?thesis by simp
  qed
qed

lemma tick_elapsedMs:
  assumes "status s = PLAYING" "currentPiece s \<noteq> None" "tick deltaMs s = Some s'"
  shows "elapsedMs s' = elapsedMs s + deltaMs"
proof -
  define s1 where "s1 = s\<lparr>elapsedMs := elapsedMs s + deltaMs\<rparr>"
  show ?thesis
  proof (cases "isTimeExpired (mode s1) (elapsedMs s1)")
    case True
    then show ?thesis using assms by (auto simp: tick_def Let_def s1_def emitEvent_def)
  next
    case notExpired: False
    show ?thesis
    proof (cases "lockDelayActive s1")
      case True
      define s2 where "s2 = s1\<lparr>lockDelayTimer := lockDelayTimer s1 + deltaMs\<rparr>"
      have "(if lockDelayTimer s2 \<ge> LOCK_DELAY_MS then lockCurrentPiece s2 else Some s2) = Some s'"
        using assms notExpired True by (auto simp: tick_def Let_def s1_def s2_def)
      then have "elapsedMs s' = elapsedMs s2"
        using lockCurrentPiece_elapsedMs[of s2 s'] by (auto split: if_splits)
      then show ?thesis by (simp add: s2_def s1_def)
    next
      case False
      have "gravityLoop (getGravityInterval (level s1))
              (s1\<lparr>gravityAccumulator := gravityAccumulator s1 + deltaMs\<rparr>) = Some s'"
        using assms notExpired False by (auto simp: tick_def Let_def s1_def)
      from gravityLoop_elapsedMs[OF getGravityInterval_pos this]
      show ?thesis by (simp add: s1_def)
    qed
  qed
qed

text \<open>
  Claim C7. In a state that is \<open>PLAYING\<close> with an active piece, if the mode has a time
  limit above 0 and the elapsed time plus \<open>deltaMs\<close> reaches it, \<open>tick\<close> returns the state
  with \<open>deltaMs\<close> added to \<open>elapsedMs\<close>, the status set to \<open>GAME_OVER\<close> for a completable mode
  and to \<open>COMPLETED\<close> otherwise, and the matching event emitted; every other field,
  among them board, score, piece, level and total lines, is as before. Whether or not the
  time has expired, a tick of a state that satisfies the invariant of the reachable states
  returns, and \<open>elapsedMs\<close> has grown by \<open>deltaMs\<close>.
\<close>

theorem tick_time_expired:
  assumes "status s = PLAYING" and "currentPiece s \<noteq> None"
  shows "(timeLimit (mode s) > 0 \<and> elapsedMs s + deltaMs \<ge> timeLimit (mode s) \<longrightarrow>
            tick deltaMs s =
              Some (s\<lparr>elapsedMs := elapsedMs s + deltaMs,
                      status := (if isCompletable (mode s) then GAME_OVER else COMPLETED),
                      events := events s @
                        [if isCompletable (mode s) then Ev_game_over else Ev_completed]\<rparr>))
       \<and> (wf_state s \<longrightarrow>
            (\<exists>s'. tick deltaMs s = Some s' \<and> elapsedMs s' = elapsedMs s + deltaMs))"
proof -
  have expired: "tick deltaMs s =
      Some (s\<lparr>elapsedMs := elapsedMs s + deltaMs,
              status := (if isCompletable (mode s) then GAME_OVER else COMPLETED),
              events := events s @
                [if isCompletable (mode s) then Ev_game_over else Ev_completed]\<rparr>)"
    if "timeLimit (mode s) > 0" "elapsedMs s + deltaMs \<ge> timeLimit (mode s)"
    using assms that by (auto simp: tick_def isTimeExpired_def emitEvent_def Let_def)
  have adds: "\<exists>s'. tick deltaMs s = Some s' \<and> elapsedMs s' = elapsedMs s + deltaMs"
    if wf: "wf_state s"
  proof -
    obtain s' where s': "tick deltaMs s = Some s'" using tick_wf[OF wf] by blast
    then show ?thesis using tick_elapsedMs[OF assms s'] by simp
  qed
  from expired adds show ?thesis by blast
qed

theorem tick_time_expired_witness:
  "status startState = PLAYING \<and> currentPiece startState \<noteq> None
   \<and> timeLimit (mode startState) > 0
   \<and> elapsedMs startState + 120000 \<ge> timeLimit (mode startState)
   \<and> wf_state startState
   \<and> tick 120000 startState =
        Some (startState\<lparr>elapsedMs := 120000, status := COMPLETED, events := [Ev_completed]\<rparr>)
   \<and> (\<exists>s'. tick 120000 startState = Some s' \<and> elapsedMs s' = elapsedMs startState + 120000)"
proof -
  have h1: "status startState = PLAYING" and h2: "currentPiece startState \<noteq> None"
    by (simp_all add: startState_def)
  have h3: "timeLimit (mode startState) > 0
      \<and> elapsedMs startState + 120000 \<ge> timeLimit (mode startState)"
    by (simp add: startState_def ULTRA_MODE_def)
  have h4: "wf_state startState" using reachable_startState by (rule reachable_wf)
  have "\<not> isCompletable (mode startState)" "events startState = []" "elapsedMs startState = 0"
    by (simp_all add: startState_def ULTRA_MODE_def)
  with tick_time_expired[OF h1 h2, of 120000] h3 h4
  have "tick 120000 startState =
        Some (startState\<lparr>elapsedMs := 120000, status := COMPLETED, events := [Ev_completed]\<rparr>)"
    and "\<exists>s'. tick 120000 startState = Some s' \<and> elapsedMs s' = elapsedMs startState + 120000"
    by simp_all
  with h1 h2 h3 h4 show ?thesis by blast
qed

lemma spawnPiece_events:
  assumes "spawnPiece s = Some (b, s')"
  shows "events s' = events s \<or> events s' = events s @ [Ev_game_over]"
  using assms
  by (auto simp: spawnPiece_def Let_def emitEvent_def split: list.splits option.splits if_splits)

lemma hold_first:
  assumes "status s = PLAYING" "currentPiece s = Some p" "\<not> holdUsed s" "holdPiece s = None"
    and "wf_base s"
  shows "\<exists>s' new. hold s = Some (True, s') \<and> holdUsed s' \<and> perPieceReset s'
           \<and> holdPiece s' = Some (ptype p)
           \<and> events s' = events s @ new \<and> count_list new Ev_hold = 1"
proof -
  have "wf_base (s\<lparr>holdPiece := Some (ptype p)\<rparr>)" using assms(5) by (simp add: wf_base_def)
  from spawnPiece_wf[OF this] obtain b s1 where
    sp: "spawnPiece (s\<lparr>holdPiece := Some (ptype p)\<rparr>) = Some (b, s1)" by blast
  have hp: "holdPiece s1 = Some (ptype p)"
    using sp
    by (auto simp: spawnPiece_def Let_def emitEvent_def split: list.splits option.splits if_splits)
  define s' where "s' = emitEvent Ev_hold
      (s1\<lparr>holdUsed := True, lockDelayActive := False, lockDelayTimer := 0,
          lockResetCount := 0, gravityAccumulator := 0, lastMoveWasRotation := False,
          lastWasTSpin := False, lastWasTSpinMini := False\<rparr>)"
  have h: "hold s = Some (True, s')"
    using assms(1-4) sp by (simp add: hold_def Let_def s'_def)
  have ev: "events s' = events s1 @ [Ev_hold]" by (simp add: s'_def emitEvent_def)
  from spawnPiece_events[OF sp] have
    "events s' = events s @ [Ev_hold] \<or> events s' = events s @ [Ev_game_over, Ev_hold]"
    using ev by auto
  then have "\<exists>new. events s' = events s @ new \<and> count_list new Ev_hold = 1"
    by (elim disjE) (rule exI[of _ "[Ev_hold]"], simp, rule exI[of _ "[Ev_game_over, Ev_hold]"], simp)
  moreover have "holdUsed s'" "perPieceReset s'" "holdPiece s' = Some (ptype p)"
    using hp by (simp_all add: s'_def emitEvent_def perPieceReset_def)
  ultimately show ?thesis using h by blast
qed

text \<open>
  Claim C2, amended. With hold already used, \<open>hold\<close> returns false and the state as it
  is. In a state that is \<open>PLAYING\<close> with an active piece and hold not used: on the first
  hold (the state satisfying the base invariant, so that the queue can supply a piece) and
  on a swap whose spawn position is free, \<open>hold\<close> returns true, marks hold used, resets
  the per-piece timers and flags and emits exactly one hold event; on a swap whose spawn
  position is blocked it returns false with the current type stored as hold piece, status
  \<open>GAME_OVER\<close> and one game-over event, and changes nothing else: hold stays unused, no
  hold event is emitted.
\<close>

theorem hold_effects:
  "(holdUsed s \<longrightarrow> hold s = Some (False, s))
   \<and> (status s = PLAYING \<and> currentPiece s = Some p \<and> \<not> holdUsed s \<longrightarrow>
        (holdPiece s = None \<and> wf_base s \<longrightarrow>
           (\<exists>s' new. hold s = Some (True, s') \<and> holdUsed s' \<and> perPieceReset s'
              \<and> holdPiece s' = Some (ptype p)
              \<and> events s' = events s @ new \<and> count_list new Ev_hold = 1))
      \<and> (\<forall>h. holdPiece s = Some h
              \<and> isValidPosition (board s) h 0 (getSpawnRow h) SPAWN_COL \<longrightarrow>
           (\<exists>s'. hold s = Some (True, s') \<and> holdUsed s' \<and> perPieceReset s'
              \<and> holdPiece s' = Some (ptype p)
              \<and> currentPiece s' = Some \<lparr>ptype = h, rotation = 0,
                                         row = getSpawnRow h, col = SPAWN_COL\<rparr>
              \<and> events s' = events s @ [Ev_hold]))
      \<and> (\<forall>h. holdPiece s = Some h
              \<and> \<not> isValidPosition (board s) h 0 (getSpawnRow h) SPAWN_COL \<longrightarrow>
           hold s = Some (False, s\<lparr>holdPiece := Some (ptype p), status := GAME_OVER,
                                   events := events s @ [Ev_game_over]\<rparr>)))"
proof -
  have used: "hold s = Some (False, s)" if "holdUsed s"
    using that by (simp add: hold_def split: option.split)
  have swap_free: "\<exists>s'. hold s = Some (True, s') \<and> holdUsed s' \<and> perPieceReset s'
        \<and> holdPiece s' = Some (ptype p)
        \<and> currentPiece s' = Some \<lparr>ptype = h, rotation = 0, row = getSpawnRow h, col = SPAWN_COL\<rparr>
        \<and> events s' = events s @ [Ev_hold]"
    if "status s = PLAYING" "currentPiece s = Some p" "\<not> holdUsed s" "holdPiece s = Some h"
       "isValidPosition (board s) h 0 (getSpawnRow h) SPAWN_COL" for h
    using that by (simp add: hold_def Let_def emitEvent_def perPieceReset_def)
  have swap_blocked: "hold s = Some (False, s\<lparr>holdPiece := Some (ptype p), status := GAME_OVER,
        events := events s @ [Ev_game_over]\<rparr>)"
    if "status s = PLAYING" "currentPiece s = Some p" "\<not> holdUsed s" "holdPiece s = Some h"
       "\<not> isValidPosition (board s) h 0 (getSpawnRow h) SPAWN_COL" for h
    using that by (simp add: hold_def Let_def emitEvent_def)
  show ?thesis using used hold_first[of s p] swap_free swap_blocked by blast
qed

lemma blockedHoldState_positions:
  "\<not> isValidPosition (board blockedHoldState) Piece_I 0 (getSpawnRow Piece_I) SPAWN_COL"
  "isValidPosition (board blockedHoldState) Piece_T 0 19 3"
  by (simp_all add: blockedHoldState_def startState_def isValidPosition_def getAbsoluteCells_def
        getCells_def getSpawnRow_def SPAWN_COL_def board_consts nth_append)

text \<open>
  Claim C2 as stated fails on \<open>blockedHoldState\<close>: the swap finds the spawn position of the
  held I piece blocked; hold stays unused and no hold event is emitted.
\<close>

theorem hold_blocked_swap_counterexample:
  "status blockedHoldState = PLAYING
   \<and> currentPiece blockedHoldState = Some \<lparr>ptype = Piece_T, rotation = 0, row = 19, col = 3\<rparr>
   \<and> \<not> holdUsed blockedHoldState
   \<and> holdPiece blockedHoldState = Some Piece_I
   \<and> hold blockedHoldState =
       Some (False, blockedHoldState\<lparr>holdPiece := Some Piece_T, status := GAME_OVER,
                                     events := [Ev_game_over]\<rparr>)
   \<and> \<not> holdUsed (snd (the (hold blockedHoldState)))
   \<and> count_list (events (snd (the (hold blockedHoldState)))) Ev_hold = 0"
proof -
  have f: "status blockedHoldState = PLAYING"
    "currentPiece blockedHoldState = Some \<lparr>ptype = Piece_T, rotation = 0, row = 19, col = 3\<rparr>"
    "\<not> holdUsed blockedHoldState" "holdPiece blockedHoldState = Some Piece_I"
    "events blockedHoldState = []"
    by (simp_all add: blockedHoldState_def startState_def)
  have h: "hold blockedHoldState =
       Some (False, blockedHoldState\<lparr>holdPiece := Some Piece_T, status := GAME_OVER,
                                     events := [Ev_game_over]\<rparr>)"
    using f blockedHoldState_positions(1) by (simp add: hold_def Let_def emitEvent_def)
  show ?thesis using f(1-4) unfolding h by (simp add: f)
qed

theorem hold_effects_witness:
  "holdUsed (startState\<lparr>holdUsed := True\<rparr>)
   \<and> hold (startState\<lparr>holdUsed := True\<rparr>) = Some (False, startState\<lparr>holdUsed := True\<rparr>)
   \<and> status startState = PLAYING
   \<and> currentPiece startState = Some \<lparr>ptype = Piece_I, rotation = 0, row = 18, col = 3\<rparr>
   \<and> \<not> holdUsed startState \<and> holdPiece startState = None \<and> wf_base startState
   \<and> (\<exists>s' new. hold startState = Some (True, s') \<and> holdUsed s' \<and> perPieceReset s'
          \<and> holdPiece s' = Some Piece_I
          \<and> events s' = events startState @ new \<and> count_list new Ev_hold = 1)
   \<and> status blockedHoldState = PLAYING
   \<and> currentPiece blockedHoldState = Some \<lparr>ptype = Piece_T, rotation = 0, row = 19, col = 3\<rparr>
   \<and> \<not> holdUsed blockedHoldState \<and> holdPiece blockedHoldState = Some Piece_I
   \<and> \<not> isValidPosition (board blockedHoldState) Piece_I 0 (getSpawnRow Piece_I) SPAWN_COL
   \<and> hold blockedHoldState =
       Some (False, blockedHoldState\<lparr>holdPiece := Some Piece_T, status := GAME_OVER,
                                     events := events blockedHoldState @ [Ev_game_over]\<rparr>)
   \<and> holdPiece (blockedHoldState\<lparr>holdPiece := Some Piece_T\<rparr>) = Some Piece_T
   \<and> isValidPosition (board (blockedHoldState\<lparr>holdPiece := Some Piece_T\<rparr>)) Piece_T 0
        (getSpawnRow Piece_T) SPAWN_COL
   \<and> (\<exists>s'. hold (blockedHoldState\<lparr>holdPiece := Some Piece_T\<rparr>) = Some (True, s')
          \<and> holdUsed s' \<and> perPieceReset s'
          \<and> events s' = events blockedHoldState @ [Ev_hold])"
proof -
  let ?u = "startState\<lparr>holdUsed := True\<rparr>"
  let ?sw = "blockedHoldState\<lparr>holdPiece := Some Piece_T\<rparr>"
  have a: "holdUsed ?u" by simp
  have b: "status startState = PLAYING"
    "currentPiece startState = Some \<lparr>ptype = Piece_I, rotation = 0, row = 18, col = 3\<rparr>"
    "\<not> holdUsed startState" "holdPiece startState = None"
    by (simp_all add: startState_def)
  have wb: "wf_base startState"
    using reachable_wf[OF reachable_startState] by (simp add: wf_state_def)
  have c: "status blockedHoldState = PLAYING"
    "currentPiece blockedHoldState = Some \<lparr>ptype = Piece_T, rotation = 0, row = 19, col = 3\<rparr>"
    "\<not> holdUsed blockedHoldState" "holdPiece blockedHoldState = Some Piece_I"
    by (simp_all add: blockedHoldState_def startState_def)
  have d: "status ?sw = PLAYING"
    "currentPiece ?sw = Some \<lparr>ptype = Piece_T, rotation = 0, row = 19, col = 3\<rparr>"
    "\<not> holdUsed ?sw" "holdPiece ?sw = Some Piece_T"
    using c by simp_all
  have dv: "isValidPosition (board ?sw) Piece_T 0 (getSpawnRow Piece_T) SPAWN_COL"
    using blockedHoldState_positions(2) by (simp add: getSpawnRow_def SPAWN_COL_def board_consts)
  have 1: "hold ?u = Some (False, ?u)"
    using hold_effects[of ?u] a by blast
  have 2: "\<exists>s' new. hold startState = Some (True, s') \<and> holdUsed s' \<and> perPieceReset s'
          \<and> holdPiece s' = Some Piece_I
          \<and> events s' = events startState @ new \<and> count_list new Ev_hold = 1"
    using hold_effects[of startState "\<lparr>ptype = Piece_I, rotation = 0, row = 18, col = 3\<rparr>"] b wb
    by simp
  have 3: "hold blockedHoldState =
       Some (False, blockedHoldState\<lparr>holdPiece := Some Piece_T, status := GAME_OVER,
                                     events := events blockedHoldState @ [Ev_game_over]\<rparr>)"
    using hold_effects[of blockedHoldState "\<lparr>ptype = Piece_T, rotation = 0, row = 19, col = 3\<rparr>"]
      c blockedHoldState_positions(1)
    by simp
  have 4: "\<exists>s'. hold ?sw = Some (True, s') \<and> holdUsed s' \<and> perPieceReset s'
          \<and> events s' = events blockedHoldState @ [Ev_hold]"
    using hold_effects[of ?sw "\<lparr>ptype = Piece_T, rotation = 0, row = 19, col = 3\<rparr>"] d dv
    by auto
  show ?thesis
    using a 1 b wb 2 c blockedHoldState_positions(1) 3 d(4) dv 4 by blast
qed

end
